theory Spec2Isabelle
  imports Main "HOL-Library.Sublist"
begin

section \<open>JavaScript strings\<close>

text \<open>
  A JavaScript string is modelled as a HOL \<^typ>\<open>string\<close>: one \<^typ>\<open>char\<close> per code
  unit, for code units up to 255. The helpers below are the built-in string methods and
  the regular-expression replacements the sources use.
\<close>

text \<open>\<^verbatim>\<open>s.includes(sub)\<close>\<close>

fun str_includes :: "string \<Rightarrow> string \<Rightarrow> bool" where
  "str_includes [] sub = (sub = [])"
| "str_includes (c # cs) sub = (prefix sub (c # cs) \<or> str_includes cs sub)"

text \<open>\<^verbatim>\<open>s.startsWith(p)\<close> and \<^verbatim>\<open>s.endsWith(p)\<close>\<close>

definition startsWith :: "string \<Rightarrow> string \<Rightarrow> bool" where
  "startsWith s p = prefix p s"

definition endsWith :: "string \<Rightarrow> string \<Rightarrow> bool" where
  "endsWith s p = suffix p s"

text \<open>\<^verbatim>\<open>s.replace(/^https?:\/\//, '')\<close>\<close>

definition stripScheme :: "string \<Rightarrow> string" where
  "stripScheme s =
     (if prefix ''http://'' s then drop 7 s
      else if prefix ''https://'' s then drop 8 s
      else s)"

text \<open>\<^verbatim>\<open>s.replace(/\/$/, '')\<close>: without the \<^verbatim>\<open>m\<close> flag, \<^verbatim>\<open>$\<close> is the end of input.\<close>

definition stripTrailingSlash :: "string \<Rightarrow> string" where
  "stripTrailingSlash s = (if suffix ''/'' s then butlast s else s)"

text \<open>
  \<^verbatim>\<open>s.replace(/\/.*$/, '')\<close>: the dot matches no line terminator, so the match starts at
  the first slash that has no line terminator after it.
\<close>

definition isLineTerminator :: "char \<Rightarrow> bool" where
  "isLineTerminator c = (c = CHR 0x0A \<or> c = CHR 0x0D)"

fun stripPath :: "string \<Rightarrow> string" where
  "stripPath [] = []"
| "stripPath (c # cs) =
     (if c = CHR ''/'' \<and> list_all (\<lambda>x. \<not> isLineTerminator x) cs then []
      else c # stripPath cs)"

text \<open>\<^verbatim>\<open>s.trim()\<close>\<close>

definition isWhiteSpace :: "char \<Rightarrow> bool" where
  "isWhiteSpace c =
     (c = CHR 0x20 \<or> c = CHR 0x09 \<or> c = CHR 0x0A \<or> c = CHR 0x0B \<or> c = CHR 0x0C
      \<or> c = CHR 0x0D \<or> c = CHR 0xA0)"

definition trim :: "string \<Rightarrow> string" where
  "trim s = rev (dropWhile isWhiteSpace (rev (dropWhile isWhiteSpace s)))"

text \<open>
  \<^verbatim>\<open>xs.slice(s, e)\<close> on an array: a negative index counts from the end, and both
  indices are clamped to the array.
\<close>

definition sliceIndex :: "nat \<Rightarrow> int \<Rightarrow> nat" where
  "sliceIndex n k = (if k < 0 then nat (max (int n + k) 0) else min (nat k) n)"

definition jsSlice :: "'a list \<Rightarrow> int \<Rightarrow> int \<Rightarrow> 'a list" where
  "jsSlice xs s e =
     (let from = sliceIndex (length xs) s; to = sliceIndex (length xs) e
      in take (to - from) (drop from xs))"

section \<open>Backlink verifier (lib/backlinkFinder.js)\<close>

datatype backlinkTarget = TargetDomain string | TargetUrl string

text \<open>
  A backlink as \<^verbatim>\<open>findBacklinks\<close> (field \<^verbatim>\<open>targetDomain\<close>) and
  \<^verbatim>\<open>findBacklinksForUrl\<close> (field \<^verbatim>\<open>targetUrl\<close>) build it.
\<close>

record backlink =
  sourceUrl :: string
  sourceTitle :: string
  bl_target :: backlinkTarget
  bl_snippet :: string

text \<open>One entry of \<^verbatim>\<open>links\<close>; \<^verbatim>\<open>$(el).attr('href')\<close> may be undefined.\<close>

record pageLink =
  href :: "string option"
  anchorText :: string
  isNofollow :: bool

text \<open>
  The record \<^verbatim>\<open>{...backlink, verified, links, statusCode}\<close> or
  \<^verbatim>\<open>{...backlink, verified, error, statusCode}\<close>: the spread is the record extension,
  and a field that a branch does not write is \<^term>\<open>None\<close>.
\<close>

record verifiedBacklink = backlink +
  verified :: bool
  links :: "pageLink list option"
  statusCode :: int
  vb_error :: "string option"

text \<open>An \<^verbatim>\<open>a\<close> element of a loaded page: its attributes and its text content.\<close>

record anchor =
  attrs :: "(string \<times> string) list"
  anchorContent :: string

text \<open>
  What \<^verbatim>\<open>axios.get\<close> resolves to (the status and the \<^verbatim>\<open>a\<close> elements of
  \<^verbatim>\<open>cheerio.load(response.data)\<close>, in document order) or rejects with.
\<close>

record httpResponse =
  status :: int
  anchors :: "anchor list"

record fetchError =
  message :: string
  responseStatus :: "int option"

text \<open>
  The network: the outcome of a GET of a URL, given the URLs requested before it. The
  history makes every sequence of outcomes possible, also for a URL requested twice.
\<close>

type_synonym fetcher = "string list \<Rightarrow> string \<Rightarrow> fetchError + httpResponse"

text \<open>
  The selector engine on a selector text: the elements it selects, or the message of the
  error it throws. It is consulted only for a selector that the quoting below breaks.
\<close>

type_synonym cssEngine = "string \<Rightarrow> anchor list \<Rightarrow> string + anchor list"

definition attr :: "anchor \<Rightarrow> string \<Rightarrow> string option" where
  "attr el name = map_of (attrs el) name"

text \<open>
  \<^verbatim>\<open>[href*="v"]\<close>: the element has an \<^verbatim>\<open>href\<close> that contains \<^verbatim>\<open>v\<close>; the empty value
  selects nothing.
\<close>

definition hrefContains :: "string \<Rightarrow> anchor \<Rightarrow> bool" where
  "hrefContains v el =
     (case attr el ''href'' of None \<Rightarrow> False | Some h \<Rightarrow> v \<noteq> [] \<and> str_includes h v)"

text \<open>
  \<^verbatim>\<open>$(`a[href*="${targetDomain}"]`)\<close>. The domain is pasted between double quotes, so a
  domain with a double quote or a backslash gives another selector, left to the engine.
\<close>

definition selectTargetLinks :: "cssEngine \<Rightarrow> string \<Rightarrow> anchor list \<Rightarrow> string + anchor list" where
  "selectTargetLinks engine targetDomain els =
     (if list_ex (\<lambda>c. c = CHR 0x22 \<or> c = CHR 0x5C) targetDomain
      then engine (''a[href*='' @ [CHR 0x22] @ targetDomain @ [CHR 0x22] @ '']'') els
      else Inr (filter (hrefContains targetDomain) els))"

text \<open>The body of \<^verbatim>\<open>.each\<close>: one entry of \<^verbatim>\<open>links\<close> per selected element.\<close>

definition toLink :: "anchor \<Rightarrow> pageLink" where
  "toLink el =
     \<lparr> href = attr el ''href'',
       anchorText = trim (anchorContent el),
       isNofollow = (case attr el ''rel'' of None \<Rightarrow> False
                     | Some r \<Rightarrow> str_includes r ''nofollow'') \<rparr>"

text \<open>The record of the \<^verbatim>\<open>catch\<close> branch; \<^verbatim>\<open>error.response?.status || 0\<close>.\<close>

definition fetchFailed :: "backlink \<Rightarrow> string \<Rightarrow> int option \<Rightarrow> verifiedBacklink" where
  "fetchFailed b msg st =
     backlink.extend b
       (verifiedBacklink.fields False None
          (case st of None \<Rightarrow> 0 | Some s \<Rightarrow> if s = 0 then 0 else s) (Some msg))"

text \<open>
  The async function mapped over a batch: one backlink, the history of requests before
  it; returns the record and the history with this request.
\<close>

definition verifyOne ::
  "cssEngine \<Rightarrow> fetcher \<Rightarrow> string list \<Rightarrow> string \<Rightarrow> backlink \<Rightarrow> verifiedBacklink \<times> string list" where
  "verifyOne engine fetch log targetDomain b =
     (case fetch log (sourceUrl b) of
        Inl err \<Rightarrow> (fetchFailed b (message err) (responseStatus err), log @ [sourceUrl b])
      | Inr response \<Rightarrow>
          (case selectTargetLinks engine targetDomain (anchors response) of
             Inl msg \<Rightarrow> (fetchFailed b msg None, log @ [sourceUrl b])
           | Inr els \<Rightarrow>
               (let ls = map toLink els in
                if length ls > 0
                then (backlink.extend b
                        (verifiedBacklink.fields True (Some ls) (status response) None),
                      log @ [sourceUrl b])
                else (backlink.extend b
                        (verifiedBacklink.fields False (Some []) (status response) None),
                      log @ [sourceUrl b]))))"

text \<open>
  \<^verbatim>\<open>Promise.all(batch.map(...))\<close>: the requests of a batch are issued in batch order and
  the results come back in batch order.
\<close>

fun verifyBatch ::
  "cssEngine \<Rightarrow> fetcher \<Rightarrow> string list \<Rightarrow> string \<Rightarrow> backlink list
   \<Rightarrow> verifiedBacklink list \<times> string list" where
  "verifyBatch engine fetch log targetDomain [] = ([], log)"
| "verifyBatch engine fetch log targetDomain (b # bs) =
     (let r = verifyOne engine fetch log targetDomain b;
          rs = verifyBatch engine fetch (snd r) targetDomain bs
      in (fst r # fst rs, snd rs))"

text \<open>
  The \<^verbatim>\<open>for (let i = 0; i < backlinks.length; i += maxConcurrent)\<close> loop. With
  \<^verbatim>\<open>maxConcurrent\<close> not positive it does not end on a non-empty list; \<^term>\<open>None\<close> is
  that run.
\<close>

partial_function (option) verifyLoop ::
  "cssEngine \<Rightarrow> fetcher \<Rightarrow> string \<Rightarrow> backlink list \<Rightarrow> int \<Rightarrow> int
   \<Rightarrow> verifiedBacklink list \<Rightarrow> string list \<Rightarrow> (verifiedBacklink list \<times> string list) option" where
  "verifyLoop engine fetch targetDomain backlinks maxConcurrent i verifiedBacklinks log =
     (if i < int (length backlinks)
      then (let batchResults =
                  verifyBatch engine fetch log targetDomain
                    (jsSlice backlinks i (i + maxConcurrent))
            in verifyLoop engine fetch targetDomain backlinks maxConcurrent (i + maxConcurrent)
                 (verifiedBacklinks @ fst batchResults) (snd batchResults))
      else Some (verifiedBacklinks, log))"

declare verifyLoop.simps [code]

definition targetDomainOf :: "string \<Rightarrow> string" where
  "targetDomainOf targetUrl = stripPath (stripTrailingSlash (stripScheme targetUrl))"

definition verifyBacklinks ::
  "cssEngine \<Rightarrow> fetcher \<Rightarrow> string list \<Rightarrow> backlink list \<Rightarrow> string \<Rightarrow> int
   \<Rightarrow> (verifiedBacklink list \<times> string list) option" where
  "verifyBacklinks engine fetch log backlinks targetUrl maxConcurrent =
     verifyLoop engine fetch (targetDomainOf targetUrl) backlinks maxConcurrent 0 [] log"

subsection \<open>Example inputs for the verifier\<close>

text \<open>
  Two backlinks, a network on which only the page of the first loads (with the nofollow
  link to the target), a network on which nothing loads, and a selector engine that
  rejects every selector.
\<close>

definition pageWithNofollowLink :: "anchor list" where
  "pageWithNofollowLink =
     [\<lparr> attrs = [(''href'', ''https://target.example/foo''), (''rel'', ''nofollow'')],
        anchorContent = ''Click'' \<rparr>]"

definition backlinkA :: backlink where
  "backlinkA = \<lparr> sourceUrl = ''http://a.example/post'', sourceTitle = ''A'',
                  bl_target = TargetDomain ''target.example'', bl_snippet = ''about target'' \<rparr>"

definition backlinkB :: backlink where
  "backlinkB = \<lparr> sourceUrl = ''http://b.example/'', sourceTitle = ''B'',
                  bl_target = TargetDomain ''target.example'', bl_snippet = ''more'' \<rparr>"

definition fetchAOnly :: fetcher where
  "fetchAOnly history u =
     (if u = ''http://a.example/post''
      then Inr \<lparr> status = 200, anchors = pageWithNofollowLink \<rparr>
      else Inl \<lparr> message = ''timeout of 10000ms exceeded'', responseStatus = None \<rparr>)"

definition fetchNothing :: fetcher where
  "fetchNothing history u = Inl \<lparr> message = ''getaddrinfo ENOTFOUND'', responseStatus = None \<rparr>"

definition noEngine :: cssEngine where
  "noEngine selector els = Inl ''unmatched selector''"

section \<open>Backlink finder: referring domains (lib/backlinkFinder.js)\<close>

text \<open>
  \<^verbatim>\<open>new URL(s).hostname\<close>, a built-in of the platform: the hostname, or \<^term>\<open>None\<close> when
  the constructor throws.
\<close>

type_synonym urlHostname = "string \<Rightarrow> string option"

text \<open>
  \<^verbatim>\<open>[...new Set(xs)]\<close>: a set keeps its elements in insertion order, and adding an
  element it already has changes nothing.
\<close>

definition setAdd :: "'a list \<Rightarrow> 'a \<Rightarrow> 'a list" where
  "setAdd seen x = (if x \<in> set seen then seen else seen @ [x])"

definition newSet :: "'a list \<Rightarrow> 'a list" where
  "newSet xs = foldl setAdd [] xs"

text \<open>
  The \<^verbatim>\<open>map\<close> gives \<^verbatim>\<open>null\<close> for a \<^verbatim>\<open>sourceUrl\<close> that does not parse and the
  \<^verbatim>\<open>filter\<close> drops the \<^verbatim>\<open>null\<close>s: together, \<^const>\<open>List.map_filter\<close>.
\<close>

definition referringDomains :: "urlHostname \<Rightarrow> backlink list \<Rightarrow> string list" where
  "referringDomains hostnameOf backlinks =
     List.map_filter (\<lambda>backlink. hostnameOf (sourceUrl backlink)) backlinks"

definition getUniqueReferringDomains :: "urlHostname \<Rightarrow> backlink list \<Rightarrow> string list" where
  "getUniqueReferringDomains hostnameOf backlinks =
     newSet (referringDomains hostnameOf backlinks)"

text \<open>
  The specification's wording, ``first-seen order with duplicates removed'': keep the
  head, remove its later copies, go on.
\<close>

fun firstSeen :: "'a list \<Rightarrow> 'a list" where
  "firstSeen [] = []"
| "firstSeen (x # xs) = x # firstSeen (removeAll x xs)"

subsection \<open>Example inputs for the referring domains\<close>

text \<open>A parser that accepts the absolute http and https URLs with a non-empty host.\<close>

definition httpHostname :: urlHostname where
  "httpHostname s =
     (if (prefix ''http://'' s \<or> prefix ''https://'' s)
         \<and> takeWhile (\<lambda>c. c \<noteq> CHR ''/'') (stripScheme s) \<noteq> []
      then Some (takeWhile (\<lambda>c. c \<noteq> CHR ''/'') (stripScheme s))
      else None)"

definition backlinkFrom :: "string \<Rightarrow> backlink" where
  "backlinkFrom u = \<lparr> sourceUrl = u, sourceTitle = '''',
                      bl_target = TargetUrl ''https://target.example/page'', bl_snippet = '''' \<rparr>"

definition backlinkOfHost :: "string \<Rightarrow> backlink" where
  "backlinkOfHost h = backlinkFrom (''https://'' @ h)"

section \<open>Search client (lib/googleSearch.js)\<close>

text \<open>
  An item of \<^verbatim>\<open>response.data.items\<close> (the four fields the client reads) and the
  formatted result the client returns.
\<close>

record cseItem =
  it_title :: string
  it_link :: string
  it_snippet :: string
  it_displayLink :: string

record searchResult =
  title :: string
  link :: string
  snippet :: string
  displayLink :: string

text \<open>
  The arguments of \<^verbatim>\<open>customsearch.cse.list\<close> that vary (\<^verbatim>\<open>auth\<close> and \<^verbatim>\<open>cx\<close> come
  from the configuration). \<^verbatim>\<open>numResults\<close> is an integer.
\<close>

record cseRequest =
  q :: string
  start :: int
  num :: int

text \<open>
  The search API: the outcome of a call, given the calls made before it. A call is
  rejected with an error or resolves to \<^verbatim>\<open>response.data.items\<close>, \<^term>\<open>None\<close> when the
  response has no such field.
\<close>

type_synonym searchApi = "cseRequest list \<Rightarrow> cseRequest \<Rightarrow> fetchError + cseItem list option"

text \<open>\<^verbatim>\<open>Math.ceil(numResults / 10)\<close>\<close>

definition ceilDiv10 :: "int \<Rightarrow> int" where
  "ceilDiv10 n = - ((- n) div 10)"

text \<open>
  The \<^verbatim>\<open>for (let i = 0; i < numCalls; i++)\<close> loop; a rejected call leaves the function
  through its \<^verbatim>\<open>catch\<close>, which rethrows.
\<close>

function searchLoop ::
  "searchApi \<Rightarrow> string \<Rightarrow> int \<Rightarrow> int \<Rightarrow> int \<Rightarrow> cseItem list \<Rightarrow> cseRequest list
   \<Rightarrow> (fetchError + cseItem list) \<times> cseRequest list" where
  "searchLoop api keywords numResults numCalls i allResults log =
     (if i < numCalls
      then (let request = \<lparr> q = keywords, start = i * 10 + 1,
                             num = min 10 (numResults - int (length allResults)) \<rparr>
            in case api log request of
                 Inl err \<Rightarrow> (Inl err, log @ [request])
               | Inr None \<Rightarrow> (Inr allResults, log @ [request])
               | Inr (Some items) \<Rightarrow>
                   if length items > 0
                   then searchLoop api keywords numResults numCalls (i + 1)
                          (allResults @ items) (log @ [request])
                   else (Inr allResults, log @ [request]))
      else (Inr allResults, log))"
  by pat_completeness auto
termination
  by (relation "measure (\<lambda>(api, keywords, numResults, numCalls, i, allResults, log).
                            nat (numCalls - i))") auto

declare searchLoop.simps [simp del]

definition formatResult :: "cseItem \<Rightarrow> searchResult" where
  "formatResult item =
     \<lparr> title = it_title item, link = it_link item, snippet = it_snippet item,
       displayLink = it_displayLink item \<rparr>"

definition searchGoogle ::
  "searchApi \<Rightarrow> cseRequest list \<Rightarrow> string \<Rightarrow> int
   \<Rightarrow> (fetchError + searchResult list) \<times> cseRequest list" where
  "searchGoogle api log keywords numResults =
     (case searchLoop api keywords numResults (ceilDiv10 numResults) 0 [] log of
        (Inl err, log') \<Rightarrow> (Inl err, log')
      | (Inr allResults, log') \<Rightarrow> (Inr (map formatResult allResults), log'))"

subsection \<open>The paging, as the specification words it\<close>

text \<open>The items a response carries; none when the call fails or the field is absent.\<close>

definition responseItems :: "fetchError + cseItem list option \<Rightarrow> cseItem list" where
  "responseItems r = (case r of Inl err \<Rightarrow> [] | Inr None \<Rightarrow> [] | Inr (Some items) \<Rightarrow> items)"

text \<open>The pages returned to the calls \<open>requests\<close>, made in this order after \<open>log\<close>.\<close>

fun pagesOf :: "searchApi \<Rightarrow> cseRequest list \<Rightarrow> cseRequest list \<Rightarrow> cseItem list list" where
  "pagesOf api log [] = []"
| "pagesOf api log (r # rs) = responseItems (api log r) # pagesOf api (log @ [r]) rs"

text \<open>
  The calls the specification prescribes for given pages: call \<open>i\<close> (from 0) starts at
  \<open>10 i + 1\<close> and requests \<open>min 10 (numResults - collected so far)\<close>.
\<close>

fun pagedRequests :: "string \<Rightarrow> int \<Rightarrow> int \<Rightarrow> int \<Rightarrow> cseItem list list \<Rightarrow> cseRequest list" where
  "pagedRequests keywords numResults i collected [] = []"
| "pagedRequests keywords numResults i collected (p # ps) =
     \<lparr> q = keywords, start = i * 10 + 1, num = min 10 (numResults - collected) \<rparr>
       # pagedRequests keywords numResults (i + 1) (collected + int (length p)) ps"

text \<open>An API that returns no more items than a call requests.\<close>

definition honoursNum :: "searchApi \<Rightarrow> bool" where
  "honoursNum api = (\<forall>log r items. api log r = Inr (Some items) \<longrightarrow> length items \<le> nat (num r))"

text \<open>An API none of whose calls is rejected.\<close>

definition neverFails :: "searchApi \<Rightarrow> bool" where
  "neverFails api = (\<forall>log r. \<exists>answer. api log r = Inr answer)"

subsection \<open>Example inputs for the search client\<close>

definition itemAt :: "nat \<Rightarrow> cseItem" where
  "itemAt k =
     \<lparr> it_title = ''result'', it_link = ''https://r.example/'' @ replicate k (CHR ''i''),
       it_snippet = '''', it_displayLink = ''r.example'' \<rparr>"

text \<open>
  An API with fifteen results for every query, whose first page carries five of them:
  items 1 to 5 at start index 1, items 6 to 15 at start index 11, nothing elsewhere.
\<close>

definition shortFirstPage :: searchApi where
  "shortFirstPage log r =
     (if start r = 1 then Inr (Some (take (nat (num r)) (map itemAt [1..<6])))
      else if start r = 11 then Inr (Some (take (nat (num r)) (map itemAt [6..<16])))
      else Inr None)"

section \<open>SERP analysis and competitor backlinks (lib/serpAnalyzer.js, lib/backlinkAnalyzer.js)\<close>

record serpEntry =
  serp_position :: int
  serp_url :: string
  serp_title :: string
  serp_displayUrl :: string
  serp_snippet :: string

text \<open>\<^verbatim>\<open>analyzeSERP\<close>: \<^verbatim>\<open>searchResults.map((result, index) => ...)\<close>; an error is rethrown.\<close>

definition analyzeSERP ::
  "searchApi \<Rightarrow> cseRequest list \<Rightarrow> string \<Rightarrow> int
   \<Rightarrow> (fetchError + serpEntry list) \<times> cseRequest list" where
  "analyzeSERP api log kw numResults =
     (case searchGoogle api log kw numResults of
        (Inl err, log') \<Rightarrow> (Inl err, log')
      | (Inr searchResults, log') \<Rightarrow>
          (Inr (map (\<lambda>(index, result).
                       \<lparr> serp_position = int index + 1, serp_url = link result,
                         serp_title = title result, serp_displayUrl = displayLink result,
                         serp_snippet = snippet result \<rparr>)
                  (enumerate 0 searchResults)),
           log'))"

text \<open>The template \<^verbatim>\<open>`"${s}"`\<close>: \<open>s\<close> between double quotes.\<close>

definition quoted :: "string \<Rightarrow> string" where
  "quoted s = [CHR 0x22] @ s @ [CHR 0x22]"

text \<open>\<^verbatim>\<open>findBacklinksForUrl\<close>: the query is the quoted URL; an error is rethrown.\<close>

definition findBacklinksForUrl ::
  "searchApi \<Rightarrow> cseRequest list \<Rightarrow> string \<Rightarrow> int
   \<Rightarrow> (fetchError + backlink list) \<times> cseRequest list" where
  "findBacklinksForUrl api log u numResults =
     (case searchGoogle api log (quoted u) numResults of
        (Inl err, log') \<Rightarrow> (Inl err, log')
      | (Inr searchResults, log') \<Rightarrow>
          (Inr (map (\<lambda>result.
                       \<lparr> sourceUrl = link result, sourceTitle = title result,
                         bl_target = TargetUrl u, bl_snippet = snippet result \<rparr>)
                  searchResults),
           log'))"

record backlinkAnalysis =
  ba_position :: int
  ba_url :: string
  ba_title :: string
  backlinksCount :: nat
  uniqueDomainsCount :: nat
  ba_backlinks :: "backlink list"
  uniqueDomains :: "string list"

record competitorAnalysis =
  ca_keyword :: string
  ca_topPages :: "serpEntry list"
  ca_backlinksAnalysis :: "backlinkAnalysis list"

text \<open>
  The \<^verbatim>\<open>for\<close> loop over \<^verbatim>\<open>topPages\<close>, one page after the other; an error of
  \<^verbatim>\<open>findBacklinksForUrl\<close> leaves the loop and the function.
\<close>

fun analyzeLoop ::
  "searchApi \<Rightarrow> urlHostname \<Rightarrow> int \<Rightarrow> serpEntry list \<Rightarrow> backlinkAnalysis list
   \<Rightarrow> cseRequest list \<Rightarrow> (fetchError + backlinkAnalysis list) \<times> cseRequest list" where
  "analyzeLoop api hostnameOf maxBacklinksPerUrl [] analysed log = (Inr analysed, log)"
| "analyzeLoop api hostnameOf maxBacklinksPerUrl (page # pages) analysed log =
     (case findBacklinksForUrl api log (serp_url page) maxBacklinksPerUrl of
        (Inl err, log') \<Rightarrow> (Inl err, log')
      | (Inr backlinks, log') \<Rightarrow>
          (let domains = getUniqueReferringDomains hostnameOf backlinks
           in analyzeLoop api hostnameOf maxBacklinksPerUrl pages
                (analysed @
                 [\<lparr> ba_position = serp_position page, ba_url = serp_url page,
                    ba_title = serp_title page, backlinksCount = length backlinks,
                    uniqueDomainsCount = length domains, ba_backlinks = backlinks,
                    uniqueDomains = domains \<rparr>])
                log'))"

definition analyzeTopRankingBacklinks ::
  "searchApi \<Rightarrow> urlHostname \<Rightarrow> cseRequest list \<Rightarrow> string \<Rightarrow> int \<Rightarrow> int
   \<Rightarrow> (fetchError + competitorAnalysis) \<times> cseRequest list" where
  "analyzeTopRankingBacklinks api hostnameOf log kw numResults maxBacklinksPerUrl =
     (case analyzeSERP api log kw numResults of
        (Inl err, log') \<Rightarrow> (Inl err, log')
      | (Inr pages, log') \<Rightarrow>
          (case analyzeLoop api hostnameOf maxBacklinksPerUrl pages [] log' of
             (Inl err, log'') \<Rightarrow> (Inl err, log'')
           | (Inr analysed, log'') \<Rightarrow>
               (Inr \<lparr> ca_keyword = kw, ca_topPages = pages,
                      ca_backlinksAnalysis = analysed \<rparr>,
                log'')))"

subsection \<open>Example inputs for the analysis\<close>

text \<open>
  An API with three results for the keyword \<open>kw\<close>, two for every other query, and an error
  for the query \<open>failing\<close>, if there is one.
\<close>

definition exampleSearch :: "string option \<Rightarrow> searchApi" where
  "exampleSearch failing log r =
     (if failing = Some (q r) then Inl \<lparr> message = ''Quota exceeded'', responseStatus = Some 429 \<rparr>
      else if start r \<noteq> 1 then Inr None
      else if q r = ''kw'' then Inr (Some (take (nat (num r)) (map itemAt [1..<4])))
      else Inr (Some (take (nat (num r)) [itemAt 7, itemAt 8])))"

definition rankedPage :: "nat \<Rightarrow> serpEntry" where
  "rankedPage k =
     \<lparr> serp_position = int k, serp_url = ''https://r.example/'' @ replicate k (CHR ''i''),
       serp_title = ''result'', serp_displayUrl = ''r.example'', serp_snippet = '''' \<rparr>"

section \<open>CSV export (lib/exporters.js)\<close>

text \<open>
  The values \<^verbatim>\<open>exportToCsv\<close> can be handed: plain data. A number is an integer (of
  magnitude below \<open>10^21\<close>, which prints in decimal); an object is its own enumerable
  properties in enumeration order, with distinct keys.
\<close>

datatype jsValue =
    JUndefined
  | JNull
  | JBool bool
  | JNumber int
  | JString string
  | JArray "jsValue list"
  | JObject "(string \<times> jsValue) list"

datatype jsError = JsError string | JsTypeError string

fun showNat :: "nat \<Rightarrow> string" where
  "showNat n =
     (if n < 10 then [char_of (48 + n)] else showNat (n div 10) @ [char_of (48 + n mod 10)])"

declare showNat.simps [simp del]

definition showInt :: "int \<Rightarrow> string" where
  "showInt k = (if k < 0 then ''-'' @ showNat (nat (- k)) else showNat (nat k))"

fun joinWith :: "string \<Rightarrow> string list \<Rightarrow> string" where
  "joinWith sep [] = []"
| "joinWith sep [x] = x"
| "joinWith sep (x # y # ys) = x @ sep @ joinWith sep (y # ys)"

text \<open>
  \<^verbatim>\<open>String(v)\<close>, and \<^verbatim>\<open>xs.join(sep)\<close>, which takes \<^verbatim>\<open>undefined\<close> and \<^verbatim>\<open>null\<close> elements as
  the empty string.
\<close>

fun jsToString :: "jsValue \<Rightarrow> string" where
  "jsToString JUndefined = ''undefined''"
| "jsToString JNull = ''null''"
| "jsToString (JBool b) = (if b then ''true'' else ''false'')"
| "jsToString (JNumber k) = showInt k"
| "jsToString (JString s) = s"
| "jsToString (JArray xs) =
     joinWith '',''
       (map (\<lambda>x. if x = JUndefined \<or> x = JNull then [] else jsToString x) xs)"
| "jsToString (JObject kvs) = ''[object Object]''"

definition arrayJoin :: "jsValue list \<Rightarrow> string \<Rightarrow> string" where
  "arrayJoin xs sep =
     joinWith sep (map (\<lambda>x. if x = JUndefined \<or> x = JNull then [] else jsToString x) xs)"

text \<open>\<^verbatim>\<open>Array.isArray(v)\<close> and \<^verbatim>\<open>typeof v === 'object'\<close>\<close>

fun isArray :: "jsValue \<Rightarrow> bool" where
  "isArray (JArray xs) = True"
| "isArray v = False"

fun typeofObject :: "jsValue \<Rightarrow> bool" where
  "typeofObject (JArray xs) = True"
| "typeofObject (JObject kvs) = True"
| "typeofObject JNull = True"
| "typeofObject v = False"

text \<open>
  The own enumerable properties of a value, as \<^verbatim>\<open>Object.keys\<close> walks them; \<^term>\<open>None\<close> is
  the TypeError on \<^verbatim>\<open>undefined\<close> and \<^verbatim>\<open>null\<close>.
\<close>

fun ownProperties :: "jsValue \<Rightarrow> (string \<times> jsValue) list option" where
  "ownProperties JUndefined = None"
| "ownProperties JNull = None"
| "ownProperties (JBool b) = Some []"
| "ownProperties (JNumber k) = Some []"
| "ownProperties (JString s) = Some (zip (map showNat [0..<length s]) (map (\<lambda>c. JString [c]) s))"
| "ownProperties (JArray xs) = Some (zip (map showNat [0..<length xs]) xs)"
| "ownProperties (JObject kvs) = Some kvs"

text \<open>\<^verbatim>\<open>item[key]\<close> for a key among the properties\<close>

definition getProperty :: "(string \<times> jsValue) list \<Rightarrow> string \<Rightarrow> jsValue" where
  "getProperty props key = (case map_of props key of None \<Rightarrow> JUndefined | Some v \<Rightarrow> v)"

text \<open>
  What the export needs of its surroundings: the configured directory, \<^verbatim>\<open>path.join\<close>,
  \<^verbatim>\<open>fs.ensureDir\<close> and the writer's \<^verbatim>\<open>writeRecords\<close> (each gives the error it throws, if
  any), and \<^verbatim>\<open>JSON.stringify\<close>.
\<close>

record exportEnv =
  csvDir :: string
  pathJoin :: "string \<Rightarrow> string \<Rightarrow> string"
  ensureDir :: "string \<Rightarrow> jsError option"
  writeRecords ::
    "string \<Rightarrow> (string \<times> string) list \<Rightarrow> (string \<times> jsValue) list list \<Rightarrow> jsError option"
  jsonStringify :: "jsValue \<Rightarrow> string"

text \<open>The three branches of the body of \<^verbatim>\<open>Object.keys(item).forEach\<close>.\<close>

definition processValue :: "exportEnv \<Rightarrow> jsValue \<Rightarrow> jsValue" where
  "processValue env v =
     (if isArray v then JString (arrayJoin (case v of JArray xs \<Rightarrow> xs | _ \<Rightarrow> []) ''||'')
      else if typeofObject v \<and> v \<noteq> JNull then JString (jsonStringify env v)
      else v)"

definition processItem :: "exportEnv \<Rightarrow> jsValue \<Rightarrow> (string \<times> jsValue) list option" where
  "processItem env item =
     (case ownProperties item of
        None \<Rightarrow> None
      | Some props \<Rightarrow>
          Some (map (\<lambda>key. (key, processValue env (getProperty props key))) (map fst props)))"

text \<open>\<^verbatim>\<open>data.map(item => ...)\<close>, left at the first item that throws.\<close>

fun processData :: "exportEnv \<Rightarrow> jsValue list \<Rightarrow> (string \<times> jsValue) list list option" where
  "processData env [] = Some []"
| "processData env (item # items) =
     (case processItem env item of
        None \<Rightarrow> None
      | Some processed \<Rightarrow>
          (case processData env items of
             None \<Rightarrow> None
           | Some rest \<Rightarrow> Some (processed # rest)))"

text \<open>What reaches the CSV writer: the path, the header and the processed records.\<close>

record csvWritten =
  cw_path :: string
  cw_header :: "(string \<times> string) list"
  cw_records :: "(string \<times> jsValue) list list"

definition exportToCsv :: "exportEnv \<Rightarrow> jsValue \<Rightarrow> string \<Rightarrow> jsError + csvWritten" where
  "exportToCsv env data filename =
     (case data of
        JArray items \<Rightarrow>
          (case ensureDir env (csvDir env) of
             Some err \<Rightarrow> Inl err
           | None \<Rightarrow>
               (let filename' = (if endsWith filename ''.csv'' then filename
                                 else filename @ ''.csv'');
                    filePath = pathJoin env (csvDir env) filename'
                in if length items = 0 then Inl (JsError ''Cannot export empty data to CSV'')
                   else (case processData env items of
                           None \<Rightarrow>
                             Inl (JsTypeError ''Cannot convert undefined or null to object'')
                         | Some [] \<Rightarrow>
                             Inl (JsTypeError ''Cannot convert undefined or null to object'')
                         | Some (first # rest) \<Rightarrow>
                             (let header = map (\<lambda>id. (id, id)) (map fst first)
                              in case writeRecords env filePath header (first # rest) of
                                   Some err \<Rightarrow> Inl err
                                 | None \<Rightarrow>
                                     Inr \<lparr> cw_path = filePath, cw_header = header,
                                            cw_records = first # rest \<rparr>))))
      | _ \<Rightarrow> Inl (JsError ''Data must be an array for CSV export''))"

subsection \<open>Example inputs for the export\<close>

text \<open>Surroundings in which the directory exists and the write succeeds.\<close>

definition workingEnv :: exportEnv where
  "workingEnv =
     \<lparr> csvDir = ''output/csv'', pathJoin = (\<lambda>dir name. dir @ ''/'' @ name),
       ensureDir = (\<lambda>dir. None), writeRecords = (\<lambda>path header records. None),
       jsonStringify = (\<lambda>v. ''{...}'') \<rparr>"

definition metadataRow :: jsValue where
  "metadataRow =
     JObject [(''url'', JString ''https://a.example/''),
              (''h1Tags'', JArray [JString ''Intro'', JString ''More'']),
              (''og'', JObject [(''locale'', JString ''en'')]),
              (''words'', JNumber 120)]"

section \<open>Referring domains of an arbitrary array (lib/backlinkFinder.js)\<close>

text \<open>
  \<^verbatim>\<open>getUniqueReferringDomains\<close> does not check what its array holds. The same function on
  an array of any values: \<^verbatim>\<open>backlink.sourceUrl\<close> throws on \<^verbatim>\<open>undefined\<close> and \<^verbatim>\<open>null\<close>
  and is \<^verbatim>\<open>undefined\<close> on a value without that property, such as a string;
  \<^verbatim>\<open>new URL(v)\<close> parses \<^verbatim>\<open>String(v)\<close>; an error of either is caught and gives
  \<^verbatim>\<open>null\<close>.
\<close>

definition itemHostname :: "urlHostname \<Rightarrow> jsValue \<Rightarrow> string option" where
  "itemHostname hostnameOf item =
     (case ownProperties item of
        None \<Rightarrow> None
      | Some props \<Rightarrow> hostnameOf (jsToString (getProperty props ''sourceUrl'')))"

definition getUniqueReferringDomainsOfValues :: "urlHostname \<Rightarrow> jsValue list \<Rightarrow> string list" where
  "getUniqueReferringDomainsOfValues hostnameOf items =
     newSet (List.map_filter (itemHostname hostnameOf) items)"

text \<open>A backlink as the object \<^verbatim>\<open>findBacklinks\<close> or \<^verbatim>\<open>findBacklinksForUrl\<close> builds.\<close>

definition backlinkValue :: "backlink \<Rightarrow> jsValue" where
  "backlinkValue b =
     JObject [(''sourceUrl'', JString (sourceUrl b)),
              (''sourceTitle'', JString (sourceTitle b)),
              (case bl_target b of
                 TargetDomain d \<Rightarrow> (''targetDomain'', JString d)
               | TargetUrl u \<Rightarrow> (''targetUrl'', JString u)),
              (''snippet'', JString (bl_snippet b))]"

section \<open>URL categorizer (\<^verbatim>\<open>categorizeUrl\<close>, \<^verbatim>\<open>categorizeSearchResults\<close>)\<close>

text \<open>
  \<^verbatim>\<open>new URLParser(url)\<close> of the url-parse package: the parsed URL (the two parts the
  modules read), or the message of the error the constructor throws.
\<close>

record parsedUrl =
  pu_protocol :: string
  pu_hostname :: string

type_synonym urlParser = "string \<Rightarrow> string + parsedUrl"

definition SOCIAL_MEDIA_DOMAINS :: "string list" where
  "SOCIAL_MEDIA_DOMAINS =
     [''linkedin.com'', ''facebook.com'', ''twitter.com'', ''instagram.com'', ''pinterest.com'',
      ''reddit.com'', ''medium.com'', ''tumblr.com'', ''quora.com'', ''youtube.com'',
      ''tiktok.com'', ''snapchat.com'', ''threads.net'', ''flickr.com'', ''vimeo.com'',
      ''telegram.org'', ''whatsapp.com'', ''discord.com'', ''slack.com'', ''meetup.com'']"

definition CONTENT_PLATFORMS :: "string list" where
  "CONTENT_PLATFORMS =
     [''wordpress.com'', ''blogger.com'', ''medium.com'', ''substack.com'', ''ghost.org'',
      ''wix.com'', ''squarespace.com'', ''weebly.com'', ''hubspot.com'', ''typepad.com'']"

record categorization =
  cz_url :: string
  category :: string
  cz_domain :: string
  cz_error :: "string option"

text \<open>\<^verbatim>\<open>hostname.replace(/^www\./, '')\<close>\<close>

definition stripWww :: "string \<Rightarrow> string" where
  "stripWww h = (if prefix ''www.'' h then drop 4 h else h)"

definition categorizeUrl :: "urlParser \<Rightarrow> string \<Rightarrow> categorization" where
  "categorizeUrl URLParser u =
     (case URLParser u of
        Inl msg \<Rightarrow>
          \<lparr> cz_url = u, category = ''error'', cz_domain = '''', cz_error = Some msg \<rparr>
      | Inr parsed \<Rightarrow>
          (let hostname = stripWww (pu_hostname parsed) in
           if list_ex (\<lambda>domain. str_includes hostname domain) SOCIAL_MEDIA_DOMAINS
           then \<lparr> cz_url = u, category = ''social_media'', cz_domain = hostname,
                  cz_error = None \<rparr>
           else if list_ex (\<lambda>domain. str_includes hostname domain) CONTENT_PLATFORMS
           then \<lparr> cz_url = u, category = ''content_platform'', cz_domain = hostname,
                  cz_error = None \<rparr>
           else \<lparr> cz_url = u, category = ''other'', cz_domain = hostname,
                  cz_error = None \<rparr>))"

text \<open>A search result of this workflow, and the categorization spread into it.\<close>

record keywordResult =
  kr_link :: string
  kr_title :: string
  kr_snippet :: string
  kr_keyword :: string

record enhancedResult = categorization +
  er_title :: string
  er_snippet :: string
  er_keyword :: string

text \<open>The object with the four arrays.\<close>

record categories =
  social_media :: "enhancedResult list"
  content_platform :: "enhancedResult list"
  other :: "enhancedResult list"
  error :: "enhancedResult list"

text \<open>
  \<^verbatim>\<open>categories[name].push(r)\<close>: for a name that is none of the four keys,
  \<^verbatim>\<open>categories[name]\<close> is undefined and the call throws.
\<close>

definition pushCategory :: "categories \<Rightarrow> string \<Rightarrow> enhancedResult \<Rightarrow> jsError + categories" where
  "pushCategory cs name r =
     (if name = ''social_media'' then Inr (cs\<lparr> social_media := social_media cs @ [r] \<rparr>)
      else if name = ''content_platform''
      then Inr (cs\<lparr> content_platform := content_platform cs @ [r] \<rparr>)
      else if name = ''other'' then Inr (cs\<lparr> other := other cs @ [r] \<rparr>)
      else if name = ''error'' then Inr (cs\<lparr> error := error cs @ [r] \<rparr>)
      else Inl (JsTypeError ''Cannot read properties of undefined (reading push)''))"

definition enhance :: "urlParser \<Rightarrow> keywordResult \<Rightarrow> enhancedResult" where
  "enhance URLParser result =
     categorization.extend (categorizeUrl URLParser (kr_link result))
       (enhancedResult.fields (kr_title result) (kr_snippet result) (kr_keyword result))"

text \<open>The body of \<^verbatim>\<open>searchResults.forEach\<close>, result after result.\<close>

fun categorizeEach :: "urlParser \<Rightarrow> keywordResult list \<Rightarrow> categories \<Rightarrow> jsError + categories" where
  "categorizeEach URLParser [] cs = Inr cs"
| "categorizeEach URLParser (result # results) cs =
     (case pushCategory cs (category (categorizeUrl URLParser (kr_link result)))
             (enhance URLParser result) of
        Inl err \<Rightarrow> Inl err
      | Inr cs' \<Rightarrow> categorizeEach URLParser results cs')"

definition categorizeSearchResults :: "urlParser \<Rightarrow> keywordResult list \<Rightarrow> jsError + categories" where
  "categorizeSearchResults URLParser searchResults =
     categorizeEach URLParser searchResults
       \<lparr> social_media = [], content_platform = [], other = [], error = [] \<rparr>"

subsection \<open>Example inputs for the categorizer\<close>

text \<open>A parser that refuses the empty string and takes the host up to the first slash.\<close>

definition hostParser :: urlParser where
  "hostParser u =
     (if u = [] then Inl ''Invalid URL''
      else Inr \<lparr> pu_protocol = (if prefix ''https:'' u then ''https:'' else ''http:''),
                 pu_hostname = takeWhile (\<lambda>c. c \<noteq> CHR ''/'') (stripScheme u) \<rparr>)"

definition resultAt :: "string \<Rightarrow> keywordResult" where
  "resultAt u = \<lparr> kr_link = u, kr_title = ''t'', kr_snippet = ''s'', kr_keyword = ''k'' \<rparr>"

section \<open>Submission analyzer (\<^verbatim>\<open>analyzeSiteForSubmission\<close>)\<close>

definition SUBMISSION_URL_PATTERNS :: "string list" where
  "SUBMISSION_URL_PATTERNS =
     [''/write-for-us'', ''/contribute'', ''/submission'', ''/submit'', ''/guest-post'',
      ''/write-with-us'', ''/contributors'', ''/guest-blogging'', ''/guest-contributor'',
      ''/authors'', ''/become-a-contributor'', ''/join-us'', ''/publish'', ''/guidelines'']"

definition SUBMISSION_KEYWORDS :: "string list" where
  "SUBMISSION_KEYWORDS =
     [''write for us'', ''submit article'', ''guest post'', ''contribute'',
      ''become a contributor'', ''guest author'', ''submission guidelines'',
      ''content submission'', ''article submission'', ''become an author'',
      ''publish with us'', ''join our writers'', ''guest blogging'', ''submit your content'',
      ''write for'', ''author guidelines'']"

text \<open>
  \<^verbatim>\<open>s.toLowerCase()\<close> on code units up to 255: the letters A to Z, and the accented
  capitals from 192 to 222 but for the multiplication sign 215, move up by 32.
\<close>

definition lowerCaseUnit :: "int \<Rightarrow> int" where
  "lowerCaseUnit k =
     (if (65 \<le> k \<and> k \<le> 90) \<or> (192 \<le> k \<and> k \<le> 222 \<and> k \<noteq> 215) then k + 32 else k)"

definition toLowerCase :: "string \<Rightarrow> string" where
  "toLowerCase s = map (\<lambda>c. char_of (lowerCaseUnit (of_char c))) s"

text \<open>\<^verbatim>\<open>pattern.replace(/[/-]/g, ' ')\<close>\<close>

definition slashDashToSpace :: "string \<Rightarrow> string" where
  "slashDashToSpace s = map (\<lambda>c. if c = CHR ''/'' \<or> c = CHR ''-'' then CHR '' '' else c) s"

text \<open>
  What the analysis reads of the loaded homepage: the \<^verbatim>\<open>a\<close> elements, the text of
  \<^verbatim>\<open>body\<close>, the number of \<^verbatim>\<open>form\<close> elements, the \<^verbatim>\<open>content\<close> of the first
  \<^verbatim>\<open>meta[name="generator"]\<close>, and the number of \<^verbatim>\<open>link[rel="https://api.w.org/"]\<close>
  elements.
\<close>

record homepage =
  hp_anchors :: "anchor list"
  hp_bodyText :: string
  hp_forms :: nat
  hp_generator :: "string option"
  hp_wpApiLinks :: nat

type_synonym homepageFetcher = "string \<Rightarrow> fetchError + homepage"

record submissionAnalysis =
  sa_url :: string
  sa_domain :: string
  acceptsSubmissions :: bool
  confidence :: int
  submissionPageUrls :: "string list"
  submissionKeywordsFound :: "string list"
  sa_notes :: "string list"

text \<open>The body of \<^verbatim>\<open>for (const pattern of SUBMISSION_URL_PATTERNS)\<close>.\<close>

definition checkPattern ::
  "string \<Rightarrow> string \<Rightarrow> string \<Rightarrow> submissionAnalysis \<Rightarrow> string \<Rightarrow> submissionAnalysis" where
  "checkPattern baseUrl hrefValue linkText result pattern =
     (if str_includes hrefValue pattern
         \<or> str_includes linkText (trim (slashDashToSpace pattern))
      then (let fullUrl =
                  (if startsWith hrefValue ''/'' then baseUrl @ hrefValue
                   else if \<not> startsWith hrefValue ''http'' then baseUrl @ ''/'' @ hrefValue
                   else hrefValue)
            in if fullUrl \<in> set (submissionPageUrls result) then result
               else result\<lparr> submissionPageUrls := submissionPageUrls result @ [fullUrl],
                            confidence := confidence result + 20 \<rparr>)
      else result)"

text \<open>
  The body of a \<^verbatim>\<open>for (const keyword of SUBMISSION_KEYWORDS)\<close> loop: a keyword found in
  \<open>content\<close> and not yet recorded is recorded and adds \<open>gain\<close> (15 in a link text, 10 in the
  body text).
\<close>

definition checkKeyword :: "int \<Rightarrow> string \<Rightarrow> submissionAnalysis \<Rightarrow> string \<Rightarrow> submissionAnalysis" where
  "checkKeyword gain content result kw =
     (if str_includes content kw
      then (if kw \<in> set (submissionKeywordsFound result) then result
            else result\<lparr> submissionKeywordsFound := submissionKeywordsFound result @ [kw],
                         confidence := confidence result + gain \<rparr>)
      else result)"

text \<open>The callback of \<^verbatim>\<open>$('a').each\<close>; an absent or empty \<^verbatim>\<open>href\<close> returns at once.\<close>

definition checkAnchor :: "string \<Rightarrow> submissionAnalysis \<Rightarrow> anchor \<Rightarrow> submissionAnalysis" where
  "checkAnchor baseUrl result el =
     (case attr el ''href'' of
        None \<Rightarrow> result
      | Some hrefValue \<Rightarrow>
          if hrefValue = [] then result
          else (let linkText = trim (toLowerCase (anchorContent el))
                in foldl (checkKeyword 15 linkText)
                     (foldl (checkPattern baseUrl hrefValue linkText) result
                        SUBMISSION_URL_PATTERNS)
                     SUBMISSION_KEYWORDS))"

text \<open>The \<^verbatim>\<open>try\<close> block from the loaded page on.\<close>

definition analyzeHomepage :: "string \<Rightarrow> parsedUrl \<Rightarrow> homepage \<Rightarrow> submissionAnalysis" where
  "analyzeHomepage u parsed page =
     (let baseUrl = pu_protocol parsed @ ''//'' @ pu_hostname parsed;
          result0 = \<lparr> sa_url = u, sa_domain = pu_hostname parsed, acceptsSubmissions = False,
                      confidence = 0, submissionPageUrls = [], submissionKeywordsFound = [],
                      sa_notes = [] \<rparr>;
          result1 = foldl (checkAnchor baseUrl) result0 (hp_anchors page);
          pageText = toLowerCase (hp_bodyText page);
          result2 = foldl (checkKeyword 10 pageText) result1 SUBMISSION_KEYWORDS;
          hasContactForm = (hp_forms page > 0
             \<and> (str_includes pageText ''contact'' \<or> str_includes pageText ''message''
                  \<or> str_includes pageText ''email''));
          result3 = (if hasContactForm
                     then result2\<lparr> sa_notes := sa_notes result2
                                      @ [''Has contact form that might be used for submissions''],
                                   confidence := confidence result2 + 5 \<rparr>
                     else result2);
          hasWordPress = ((case hp_generator page of None \<Rightarrow> False
                           | Some content \<Rightarrow> str_includes content ''WordPress'')
                          \<or> hp_wpApiLinks page > 0);
          result4 = (if hasWordPress
                     then result3\<lparr> sa_notes := sa_notes result3
                                      @ [''WordPress site (more likely to accept submissions)''],
                                   confidence := confidence result3 + 10 \<rparr>
                     else result3);
          result5 = result4\<lparr> confidence := min (confidence result4) 100 \<rparr>;
          result6 = result5\<lparr> acceptsSubmissions := (confidence result5 \<ge> 30) \<rparr>
      in if acceptsSubmissions result6
         then result6\<lparr> sa_notes := sa_notes result6
                          @ [''Confidence level: '' @ showInt (confidence result6) @ ''%''] \<rparr>
         else result6\<lparr> sa_notes := sa_notes result6 @ [''No clear submission opportunities found''] \<rparr>)"

text \<open>
  The whole function. An error of the request is caught and gives the record of the
  \<^verbatim>\<open>catch\<close> block; an error of the URL constructor is thrown again by the constructor
  call inside the \<^verbatim>\<open>catch\<close> block, and leaves the function.
\<close>

definition analyzeSiteForSubmission ::
  "urlParser \<Rightarrow> homepageFetcher \<Rightarrow> string \<Rightarrow> jsError + submissionAnalysis" where
  "analyzeSiteForSubmission URLParser fetch u =
     (case URLParser u of
        Inl msg \<Rightarrow> Inl (JsError msg)
      | Inr parsed \<Rightarrow>
          (case fetch u of
             Inl err \<Rightarrow>
               Inr \<lparr> sa_url = u, sa_domain = pu_hostname parsed, acceptsSubmissions = False,
                      confidence = 0, submissionPageUrls = [], submissionKeywordsFound = [],
                      sa_notes = [''Error during analysis: '' @ message err] \<rparr>
           | Inr page \<Rightarrow> Inr (analyzeHomepage u parsed page)))"

subsection \<open>Example inputs for the submission analyzer\<close>

definition linkTo :: "string \<Rightarrow> string \<Rightarrow> anchor" where
  "linkTo target label = \<lparr> attrs = [(''href'', target)], anchorContent = label \<rparr>"

text \<open>A WordPress homepage with a contact form and seven links to submission pages.\<close>

definition eagerHomepage :: homepage where
  "eagerHomepage =
     \<lparr> hp_anchors =
         [linkTo ''/write-for-us'' ''Write for us'', linkTo ''/contribute'' ''Contribute'',
          linkTo ''/submit'' ''Submit article'', linkTo ''/guest-post'' ''Guest post'',
          linkTo ''/authors'' ''Become an author'', linkTo ''/join-us'' ''Join our writers'',
          linkTo ''/publish'' ''Publish with us''],
       hp_bodyText = ''Contact us by email. Submission guidelines below.'',
       hp_forms = 1, hp_generator = Some ''WordPress 6.4'', hp_wpApiLinks = 0 \<rparr>"

definition homepages :: homepageFetcher where
  "homepages u =
     (if u = ''https://eager.example/'' then Inr eagerHomepage
      else if u = ''https://quiet.example/''
      then Inr \<lparr> hp_anchors = [linkTo ''/about'' ''About''], hp_bodyText = ''Hello'',
                 hp_forms = 0, hp_generator = None, hp_wpApiLinks = 0 \<rparr>
      else Inl \<lparr> message = ''timeout of 15000ms exceeded'', responseStatus = None \<rparr>)"

section \<open>Properties of the backlink verifier\<close>


lemma verifyOne_log: "snd (verifyOne engine fetch log td b) = log @ [sourceUrl b]"
  by (simp add: verifyOne_def Let_def split: sum.splits)

lemma truncate_extend: "backlink.truncate (backlink.extend b ext) = b"
  by (simp add: backlink.truncate_def backlink.extend_def)

lemma verifyOne_truncate: "backlink.truncate (fst (verifyOne engine fetch log td b)) = b"
  by (simp add: verifyOne_def fetchFailed_def truncate_extend Let_def split: sum.splits)

lemma verifyBatch_log: "snd (verifyBatch engine fetch log td bs) = log @ map sourceUrl bs"
  by (induction bs arbitrary: log) (simp_all add: Let_def verifyOne_log)

lemma verifyBatch_length: "length (fst (verifyBatch engine fetch log td bs)) = length bs"
  by (induction bs arbitrary: log) (simp_all add: Let_def)

lemma verifyBatch_truncate: "map backlink.truncate (fst (verifyBatch engine fetch log td bs)) = bs"
  by (induction bs arbitrary: log) (simp_all add: Let_def verifyOne_truncate)

lemma verifyBatch_append:
  "verifyBatch engine fetch log td (xs @ ys) =
     (fst (verifyBatch engine fetch log td xs)
        @ fst (verifyBatch engine fetch (snd (verifyBatch engine fetch log td xs)) td ys),
      snd (verifyBatch engine fetch (snd (verifyBatch engine fetch log td xs)) td ys))"
  by (induction xs arbitrary: log) (simp_all add: Let_def)

lemma verifyBatch_nth:
  "i < length bs \<Longrightarrow>
   fst (verifyBatch engine fetch log td bs) ! i =
     fst (verifyOne engine fetch (log @ map sourceUrl (take i bs)) td (bs ! i))"
proof (induction bs arbitrary: log i)
  case Nil
  then show ?case by simp
next
  case (Cons b bs)
  show ?case
  proof (cases i)
    case 0
    then show ?thesis by (simp add: Let_def)
  next
    case (Suc j)
    with Cons.prems have "j < length bs" by simp
    from Cons.IH [OF this] Suc show ?thesis
      by (simp add: Let_def verifyOne_log)
  qed
qed

lemma jsSlice_window:
  "0 \<le> i \<Longrightarrow> 0 < m \<Longrightarrow> jsSlice xs i (i + m) = take (nat m) (drop (nat i) xs)"
  by (auto simp: jsSlice_def sliceIndex_def Let_def min_def nat_add_distrib)

lemma verifyLoop_result:
  assumes "0 < maxConcurrent" and "0 \<le> i"
  shows "verifyLoop engine fetch td bs maxConcurrent i acc log =
           Some (acc @ fst (verifyBatch engine fetch log td (drop (nat i) bs)),
                 snd (verifyBatch engine fetch log td (drop (nat i) bs)))"
  using assms(2)
proof (induction "length bs - nat i" arbitrary: i acc log rule: less_induct)
  case less
  show ?case
  proof (cases "i < int (length bs)")
    case False
    then show ?thesis by (simp add: verifyLoop.simps [of _ _ _ _ _ i])
  next
    case True
    let ?w = "take (nat maxConcurrent) (drop (nat i) bs)"
    let ?r = "verifyBatch engine fetch log td ?w"
    have smaller: "length bs - nat (i + maxConcurrent) < length bs - nat i"
      using True assms(1) less.prems by linarith
    have nonneg: "0 \<le> i + maxConcurrent" using assms(1) less.prems by simp
    have rest: "drop (nat (i + maxConcurrent)) bs = drop (nat maxConcurrent) (drop (nat i) bs)"
      using assms(1) less.prems by (simp add: nat_add_distrib add.commute)
    have split: "drop (nat i) bs = ?w @ drop (nat (i + maxConcurrent)) bs"
      unfolding rest by (rule append_take_drop_id [symmetric])
    have step: "verifyLoop engine fetch td bs maxConcurrent i acc log =
        verifyLoop engine fetch td bs maxConcurrent (i + maxConcurrent) (acc @ fst ?r) (snd ?r)"
      using True less.prems assms(1)
      by (subst verifyLoop.simps) (simp add: jsSlice_window Let_def)
    have "verifyBatch engine fetch log td (drop (nat i) bs) =
            (fst ?r @ fst (verifyBatch engine fetch (snd ?r) td (drop (nat (i + maxConcurrent)) bs)),
             snd (verifyBatch engine fetch (snd ?r) td (drop (nat (i + maxConcurrent)) bs)))"
      by (subst split) (rule verifyBatch_append)
    then show ?thesis
      using less.hyps [OF smaller nonneg, of "acc @ fst ?r" "snd ?r"] step by simp
  qed
qed

lemma verifyBacklinks_result:
  "0 < maxConcurrent \<Longrightarrow>
   verifyBacklinks engine fetch log bs targetUrl maxConcurrent =
     Some (verifyBatch engine fetch log (targetDomainOf targetUrl) bs)"
  by (simp add: verifyBacklinks_def verifyLoop_result)


text \<open>
  Claim C1. For every list of backlinks, every target and every network, verifyBacklinks
  (with a positive batch size, 5 by default) returns; its output has the length of the
  input, the record at each position extends the backlink at that position, and exactly
  one page is requested per backlink, in input order. On the empty list it returns the
  empty list and requests no page.
\<close>

theorem verifyBacklinks_length_order:
  assumes "0 < maxConcurrent"
  shows "(\<exists>out log'.
            verifyBacklinks engine fetch log backlinks targetUrl maxConcurrent = Some (out, log')
            \<and> length out = length backlinks
            \<and> map backlink.truncate out = backlinks
            \<and> log' = log @ map sourceUrl backlinks)
         \<and> verifyBacklinks engine fetch log [] targetUrl maxConcurrent = Some ([], log)"
proof -
  let ?r = "verifyBatch engine fetch log (targetDomainOf targetUrl) backlinks"
  have "verifyBacklinks engine fetch log backlinks targetUrl maxConcurrent = Some (fst ?r, snd ?r)"
    using assms by (simp add: verifyBacklinks_result)
  moreover have "length (fst ?r) = length backlinks" by (rule verifyBatch_length)
  moreover have "map backlink.truncate (fst ?r) = backlinks" by (rule verifyBatch_truncate)
  moreover have "snd ?r = log @ map sourceUrl backlinks" by (rule verifyBatch_log)
  moreover have "verifyBacklinks engine fetch log [] targetUrl maxConcurrent = Some ([], log)"
    by (simp add: verifyBacklinks_def verifyLoop.simps)
  ultimately show ?thesis by blast
qed

text \<open>The run on two backlinks whose pages both fail to load, with the default batch size.\<close>

theorem verifyBacklinks_length_order_witness:
  "(0::int) < 5
   \<and> (\<exists>out log'.
         verifyBacklinks noEngine fetchNothing [] [backlinkA, backlinkB] ''https://target.example/'' 5
           = Some (out, log')
         \<and> length out = length [backlinkA, backlinkB]
         \<and> map backlink.truncate out = [backlinkA, backlinkB]
         \<and> log' = [] @ map sourceUrl [backlinkA, backlinkB])
   \<and> verifyBacklinks noEngine fetchNothing [] [] ''https://target.example/'' 5 = Some ([], [])"
  using verifyBacklinks_length_order
          [of 5 noEngine fetchNothing "[]" "[backlinkA, backlinkB]" "''https://target.example/''"]
  by simp

text \<open>
  Claim C3. When the page request of the backlink at position \<open>i\<close> is rejected, the output
  still has a record at position \<open>i\<close>: the backlink with \<open>verified = false\<close>, the message of
  the error, and the HTTP status of the error or 0. The record has no \<open>links\<close> field: the
  \<^verbatim>\<open>catch\<close> branch does not write one, where the claim asks for an empty list.
\<close>

theorem verifyBacklinks_fetch_error_record:
  assumes "0 < maxConcurrent" and "i < length backlinks"
    and "fetch (log @ map sourceUrl (take i backlinks)) (sourceUrl (backlinks ! i)) = Inl err"
  shows "\<exists>out log'.
           verifyBacklinks engine fetch log backlinks targetUrl maxConcurrent = Some (out, log')
           \<and> length out = length backlinks
           \<and> out ! i =
               backlink.extend (backlinks ! i)
                 (verifiedBacklink.fields False None
                    (case responseStatus err of None \<Rightarrow> 0 | Some s \<Rightarrow> s) (Some (message err)))
           \<and> links (out ! i) = None"
proof -
  let ?r = "verifyBatch engine fetch log (targetDomainOf targetUrl) backlinks"
  have run: "verifyBacklinks engine fetch log backlinks targetUrl maxConcurrent = Some (fst ?r, snd ?r)"
    using assms(1) by (simp add: verifyBacklinks_result)
  have "fst ?r ! i =
          fst (verifyOne engine fetch (log @ map sourceUrl (take i backlinks))
                 (targetDomainOf targetUrl) (backlinks ! i))"
    using assms(2) by (rule verifyBatch_nth)
  also have "\<dots> = backlink.extend (backlinks ! i)
                 (verifiedBacklink.fields False None
                    (case responseStatus err of None \<Rightarrow> 0 | Some s \<Rightarrow> s) (Some (message err)))"
    using assms(3) by (simp add: verifyOne_def fetchFailed_def split: option.splits)
  finally have rec: "fst ?r ! i = backlink.extend (backlinks ! i)
                 (verifiedBacklink.fields False None
                    (case responseStatus err of None \<Rightarrow> 0 | Some s \<Rightarrow> s) (Some (message err)))" .
  have "links (fst ?r ! i) = None"
    by (simp add: rec backlink.extend_def verifiedBacklink.fields_def)
  with run rec verifyBatch_length [of engine fetch log "targetDomainOf targetUrl" backlinks]
  show ?thesis by blast
qed

text \<open>The run on one backlink whose host does not resolve.\<close>

theorem verifyBacklinks_fetch_error_record_witness:
  "(0::int) < 5 \<and> 0 < length [backlinkB]
   \<and> fetchNothing ([] @ map sourceUrl (take 0 [backlinkB])) (sourceUrl ([backlinkB] ! 0))
       = Inl \<lparr> message = ''getaddrinfo ENOTFOUND'', responseStatus = None \<rparr>
   \<and> verifyBacklinks noEngine fetchNothing [] [backlinkB] ''target.example'' 5 =
       Some ([\<lparr> sourceUrl = ''http://b.example/'', sourceTitle = ''B'',
                 bl_target = TargetDomain ''target.example'', bl_snippet = ''more'',
                 verified = False, links = None, statusCode = 0,
                 vb_error = Some ''getaddrinfo ENOTFOUND'' \<rparr>],
             [''http://b.example/''])"
proof -
  have h: "fetchNothing ([] @ map sourceUrl (take 0 [backlinkB])) (sourceUrl ([backlinkB] ! 0))
       = Inl \<lparr> message = ''getaddrinfo ENOTFOUND'', responseStatus = None \<rparr>"
    by (simp add: fetchNothing_def)
  have e: "verifyBacklinks noEngine fetchNothing [] [backlinkB] ''target.example'' 5 =
       Some ([\<lparr> sourceUrl = ''http://b.example/'', sourceTitle = ''B'',
                 bl_target = TargetDomain ''target.example'', bl_snippet = ''more'',
                 verified = False, links = None, statusCode = 0,
                 vb_error = Some ''getaddrinfo ENOTFOUND'' \<rparr>],
             [''http://b.example/''])"
    by code_simp
  show ?thesis
    using h e verifyBacklinks_fetch_error_record
         [of 5 0 "[backlinkB]" fetchNothing "[]" _ noEngine "''target.example''", OF _ _ h]
    by simp
qed

lemma targetDomainOf_example: "targetDomainOf ''target.example'' = ''target.example''"
  by (simp add: targetDomainOf_def stripScheme_def stripTrailingSlash_def suffix_to_prefix)

lemma verifyOne_nofollow:
  assumes "fetch log (sourceUrl b) = Inr \<lparr> status = st, anchors =
     [\<lparr> attrs = [(''href'', ''https://target.example/foo''), (''rel'', ''nofollow'')],
        anchorContent = ''Click'' \<rparr>] \<rparr>"
  shows "fst (verifyOne engine fetch log ''target.example'' b) =
     backlink.extend b (verifiedBacklink.fields True
        (Some [\<lparr> href = Some ''https://target.example/foo'', anchorText = ''Click'',
                  isNofollow = True \<rparr>]) st None)"
  using assms
  by (simp add: verifyOne_def selectTargetLinks_def hrefContains_def attr_def toLink_def
        trim_def isWhiteSpace_def)




text \<open>
  Claim C6. Verifying target \<open>target.example\<close>: when the page of the backlink at position
  \<open>i\<close> loads and its only anchor is
  \<^verbatim>\<open><a href="https://target.example/foo" rel="nofollow">Click</a>\<close>, the record at
  position \<open>i\<close> has exactly one entry in \<open>links\<close>, with \<open>isNofollow = true\<close>, and
  \<open>verified = true\<close>.
\<close>

theorem verifyBacklinks_nofollow_anchor:
  assumes "0 < maxConcurrent" and "i < length backlinks"
    and "fetch (log @ map sourceUrl (take i backlinks)) (sourceUrl (backlinks ! i)) =
           Inr \<lparr> status = st, anchors =
             [\<lparr> attrs = [(''href'', ''https://target.example/foo''), (''rel'', ''nofollow'')],
                anchorContent = ''Click'' \<rparr>] \<rparr>"
  shows "\<exists>out log'.
           verifyBacklinks engine fetch log backlinks ''target.example'' maxConcurrent
             = Some (out, log')
           \<and> links (out ! i) =
               Some [\<lparr> href = Some ''https://target.example/foo'', anchorText = ''Click'',
                        isNofollow = True \<rparr>]
           \<and> verified (out ! i) = True
           \<and> backlink.truncate (out ! i) = backlinks ! i"
proof -
  let ?r = "verifyBatch engine fetch log ''target.example'' backlinks"
  have run: "verifyBacklinks engine fetch log backlinks ''target.example'' maxConcurrent
               = Some (fst ?r, snd ?r)"
    using assms(1) by (simp add: verifyBacklinks_result targetDomainOf_example)
  have "fst ?r ! i =
          fst (verifyOne engine fetch (log @ map sourceUrl (take i backlinks))
                 ''target.example'' (backlinks ! i))"
    using assms(2) by (rule verifyBatch_nth)
  also note verifyOne_nofollow [of fetch "log @ map sourceUrl (take i backlinks)" "backlinks ! i" st engine, OF assms(3)]
  finally have rec: "fst ?r ! i = backlink.extend (backlinks ! i) (verifiedBacklink.fields True
        (Some [\<lparr> href = Some ''https://target.example/foo'', anchorText = ''Click'',
                  isNofollow = True \<rparr>]) st None)" .
  have "links (fst ?r ! i) = Some [\<lparr> href = Some ''https://target.example/foo'',
          anchorText = ''Click'', isNofollow = True \<rparr>]"
    and "verified (fst ?r ! i) = True"
    and "backlink.truncate (fst ?r ! i) = backlinks ! i"
    by (simp_all add: rec backlink.extend_def verifiedBacklink.fields_def backlink.truncate_def)
  with run show ?thesis by blast
qed

text \<open>The run on two backlinks, the second of which has that page.\<close>

theorem verifyBacklinks_nofollow_anchor_witness:
  "(0::int) < 5 \<and> 1 < length [backlinkB, backlinkA]
   \<and> fetchAOnly ([] @ map sourceUrl (take 1 [backlinkB, backlinkA]))
         (sourceUrl ([backlinkB, backlinkA] ! 1)) =
       Inr \<lparr> status = 200, anchors =
             [\<lparr> attrs = [(''href'', ''https://target.example/foo''), (''rel'', ''nofollow'')],
                anchorContent = ''Click'' \<rparr>] \<rparr>
   \<and> (\<exists>out log'.
         verifyBacklinks noEngine fetchAOnly [] [backlinkB, backlinkA] ''target.example'' 5
           = Some (out, log')
         \<and> links (out ! 1) =
             Some [\<lparr> href = Some ''https://target.example/foo'', anchorText = ''Click'',
                      isNofollow = True \<rparr>]
         \<and> verified (out ! 1) = True
         \<and> backlink.truncate (out ! 1) = [backlinkB, backlinkA] ! 1)"
proof -
  have h: "fetchAOnly ([] @ map sourceUrl (take 1 [backlinkB, backlinkA]))
         (sourceUrl ([backlinkB, backlinkA] ! 1)) =
       Inr \<lparr> status = 200, anchors =
             [\<lparr> attrs = [(''href'', ''https://target.example/foo''), (''rel'', ''nofollow'')],
                anchorContent = ''Click'' \<rparr>] \<rparr>"
    by (simp add: fetchAOnly_def backlinkA_def pageWithNofollowLink_def)
  have l: "1 < length [backlinkB, backlinkA]" by simp
  show ?thesis
    using h l verifyBacklinks_nofollow_anchor
                [of 5 1 "[backlinkB, backlinkA]" fetchAOnly "[]" 200 noEngine, OF _ l h]
    by simp
qed

section \<open>Properties of the referring domains\<close>



lemma set_firstSeen: "set (firstSeen xs) = set xs"
  by (induction xs rule: firstSeen.induct) auto

lemma distinct_firstSeen: "distinct (firstSeen xs)"
  by (induction xs rule: firstSeen.induct) (auto simp: set_firstSeen)

lemma firstSeen_distinct: "distinct xs \<Longrightarrow> firstSeen xs = xs"
  by (induction xs) (auto simp: removeAll_id)

lemma foldl_setAdd:
  "foldl setAdd acc xs = acc @ firstSeen (filter (\<lambda>x. x \<notin> set acc) xs)"
proof (induction xs arbitrary: acc)
  case Nil
  then show ?case by simp
next
  case (Cons x xs)
  show ?case
  proof (cases "x \<in> set acc")
    case True
    then have "setAdd acc x = acc" by (simp add: setAdd_def)
    with True show ?thesis by (simp add: Cons.IH)
  next
    case False
    have "removeAll x (filter (\<lambda>y. y \<notin> set acc) xs) =
            filter (\<lambda>y. y \<notin> set (acc @ [x])) xs"
      by (induction xs) auto
    moreover from False have "setAdd acc x = acc @ [x]" by (simp add: setAdd_def)
    ultimately show ?thesis using False by (simp add: Cons.IH)
  qed
qed

lemma newSet_firstSeen: "newSet xs = firstSeen xs"
  by (simp add: newSet_def foldl_setAdd)

lemma set_map_filter: "set (List.map_filter f xs) = {y. \<exists>x\<in>set xs. f x = Some y}"
  by (induction xs) (auto simp: List.map_filter_simps split: option.splits)

lemma map_filter_map_Some:
  "(\<forall>h\<in>set hs. f (g h) = Some h) \<Longrightarrow> List.map_filter f (map g hs) = hs"
  by (induction hs) (simp_all add: List.map_filter_simps)


text \<open>
  Claim C4, as amended. The result of getUniqueReferringDomains has no duplicates, whatever
  the input; it is the hostnames of the backlinks whose sourceUrl parses, in first-seen
  order (a sourceUrl that does not parse contributes nothing and raises nothing: the
  function is total). It is idempotent on its output put back as backlinks: when each
  hostname of the output is made the sourceUrl of a backlink that parses to that hostname,
  applying the function to these backlinks gives the same list.
\<close>

theorem getUniqueReferringDomains_unique_ordered_idempotent:
  "distinct (getUniqueReferringDomains hostnameOf backlinks)
   \<and> getUniqueReferringDomains hostnameOf backlinks =
       firstSeen (referringDomains hostnameOf backlinks)
   \<and> set (getUniqueReferringDomains hostnameOf backlinks) =
       {h. \<exists>b\<in>set backlinks. hostnameOf (sourceUrl b) = Some h}
   \<and> ((\<forall>h\<in>set (getUniqueReferringDomains hostnameOf backlinks).
          hostnameOf (sourceUrl (asBacklink h)) = Some h)
      \<longrightarrow> getUniqueReferringDomains hostnameOf
            (map asBacklink (getUniqueReferringDomains hostnameOf backlinks)) =
          getUniqueReferringDomains hostnameOf backlinks)"
proof -
  let ?once = "getUniqueReferringDomains hostnameOf backlinks"
  have eq: "?once = firstSeen (referringDomains hostnameOf backlinks)"
    by (simp add: getUniqueReferringDomains_def newSet_firstSeen)
  have dist: "distinct ?once"
    by (simp add: eq distinct_firstSeen)
  have elems: "set ?once = {h. \<exists>b\<in>set backlinks. hostnameOf (sourceUrl b) = Some h}"
    by (simp add: eq set_firstSeen referringDomains_def set_map_filter)
  have again: "getUniqueReferringDomains hostnameOf (map asBacklink ?once) = ?once"
    if roundtrip: "\<forall>h\<in>set ?once. hostnameOf (sourceUrl (asBacklink h)) = Some h"
  proof -
    have "referringDomains hostnameOf (map asBacklink ?once) = ?once"
      unfolding referringDomains_def
      using roundtrip by (rule map_filter_map_Some [where f = "\<lambda>b. hostnameOf (sourceUrl b)"])
    then have "getUniqueReferringDomains hostnameOf (map asBacklink ?once) = firstSeen ?once"
      by (simp add: getUniqueReferringDomains_def newSet_firstSeen)
    with dist show ?thesis by (simp add: firstSeen_distinct)
  qed
  from dist eq elems again show ?thesis by blast
qed

text \<open>
  Four backlinks, one with a sourceUrl that does not parse and two on the same host: two
  hostnames, in first-seen order, and the same two when applied again.
\<close>

theorem getUniqueReferringDomains_unique_ordered_idempotent_witness:
  "getUniqueReferringDomains httpHostname
      (map backlinkFrom [''https://a.example/x'', ''not a url'', ''http://b.example/'',
                         ''https://a.example/y''])
     = [''a.example'', ''b.example'']
   \<and> httpHostname (sourceUrl (backlinkOfHost ''a.example'')) = Some ''a.example''
   \<and> httpHostname (sourceUrl (backlinkOfHost ''b.example'')) = Some ''b.example''
   \<and> getUniqueReferringDomains httpHostname
         (map backlinkOfHost [''a.example'', ''b.example''])
     = [''a.example'', ''b.example'']"
proof -
  let ?bs = "map backlinkFrom [''https://a.example/x'', ''not a url'', ''http://b.example/'',
                         ''https://a.example/y'']"
  have once: "getUniqueReferringDomains httpHostname ?bs = [''a.example'', ''b.example'']"
    by code_simp
  have a: "httpHostname (sourceUrl (backlinkOfHost ''a.example'')) = Some ''a.example''"
    by code_simp
  have b: "httpHostname (sourceUrl (backlinkOfHost ''b.example'')) = Some ''b.example''"
    by code_simp
  have h: "\<forall>h\<in>set (getUniqueReferringDomains httpHostname ?bs).
             httpHostname (sourceUrl (backlinkOfHost h)) = Some h"
    unfolding once using a b by simp
  from h getUniqueReferringDomains_unique_ordered_idempotent
         [of httpHostname ?bs backlinkOfHost]
  have "getUniqueReferringDomains httpHostname
          (map backlinkOfHost (getUniqueReferringDomains httpHostname ?bs)) =
        getUniqueReferringDomains httpHostname ?bs"
    by blast
  then have "getUniqueReferringDomains httpHostname
               (map backlinkOfHost [''a.example'', ''b.example'']) = [''a.example'', ''b.example'']"
    unfolding once .
  with once a b show ?thesis by blast
qed



text \<open>On an array of backlink objects the function on values is the function on backlinks.\<close>

lemma itemHostname_backlinkValue:
  "itemHostname hostnameOf (backlinkValue b) = hostnameOf (sourceUrl b)"
  by (simp add: itemHostname_def backlinkValue_def getProperty_def)

lemma getUniqueReferringDomainsOfValues_backlinks:
  "getUniqueReferringDomainsOfValues hostnameOf (map backlinkValue backlinks) =
     getUniqueReferringDomains hostnameOf backlinks"
proof -
  have "List.map_filter (itemHostname hostnameOf) (map backlinkValue backlinks) =
        List.map_filter (\<lambda>b. hostnameOf (sourceUrl b)) backlinks"
    by (induction backlinks) (simp_all add: itemHostname_backlinkValue split: option.splits)
  then show ?thesis
    by (simp add: getUniqueReferringDomainsOfValues_def getUniqueReferringDomains_def
          referringDomains_def)
qed

text \<open>
  The claim as stated fails: applied once to two backlinks the function gives two
  hostnames, and applied again to that output, an array of strings, it gives the empty
  array, since a string has no \<^verbatim>\<open>sourceUrl\<close> and \<^verbatim>\<open>new URL(undefined)\<close> throws.
\<close>

theorem getUniqueReferringDomains_twice_counterexample:
  "getUniqueReferringDomainsOfValues httpHostname
      (map backlinkValue (map backlinkFrom [''https://a.example/x'', ''http://b.example/'']))
     = [''a.example'', ''b.example'']
   \<and> getUniqueReferringDomainsOfValues httpHostname (map JString [''a.example'', ''b.example''])
     = []"
  by code_simp

section \<open>Properties of the search client\<close>


lemma length_pagesOf: "length (pagesOf api log rs) = length rs"
  by (induction rs arbitrary: log) simp_all

lemma searchLoop_trace:
  assumes "searchLoop api kw N nc i acc log = (Inr res, log')"
  shows "\<exists>reqs. log' = log @ reqs
      \<and> res = acc @ concat (pagesOf api log reqs)
      \<and> reqs = pagedRequests kw N i (int (length acc)) (pagesOf api log reqs)
      \<and> int (length reqs) \<le> max 0 (nc - i)
      \<and> list_all (\<lambda>p. p \<noteq> []) (butlast (pagesOf api log reqs))
      \<and> (int (length reqs) < nc - i \<longrightarrow> reqs \<noteq> [] \<and> last (pagesOf api log reqs) = [])"
  using assms
proof (induction api kw N nc i acc log arbitrary: res log' rule: searchLoop.induct)
  case (1 api kw N nc i acc log)
  let ?r = "\<lparr> q = kw, start = i * 10 + 1, num = min 10 (N - int (length acc)) \<rparr>"
  show ?case
  proof (cases "i < nc")
    case False
    with "1.prems" have "res = acc" "log' = log"
      by (auto simp: searchLoop.simps [of api kw N nc i])
    with False show ?thesis by (intro exI [of _ "[]"]) simp
  next
    case True
    have stop: ?thesis if "responseItems (api log ?r) = []" "res = acc" "log' = log @ [?r]"
      using that True by (intro exI [of _ "[?r]"]) simp
    show ?thesis
    proof (cases "api log ?r")
      case (Inl err)
      with True "1.prems" show ?thesis
        by (simp add: searchLoop.simps [of api kw N nc i] Let_def)
    next
      case (Inr answer)
      show ?thesis
      proof (cases answer)
        case None
        with Inr True "1.prems" have "res = acc" "log' = log @ [?r]"
          by (auto simp: searchLoop.simps [of api kw N nc i] Let_def)
        moreover from None Inr have "responseItems (api log ?r) = []"
          by (simp add: responseItems_def)
        ultimately show ?thesis by (intro stop)
      next
        case (Some items)
        show ?thesis
        proof (cases "items = []")
          case True
          with Some Inr \<open>i < nc\<close> "1.prems" have "res = acc" "log' = log @ [?r]"
            by (auto simp: searchLoop.simps [of api kw N nc i] Let_def)
          moreover from True Some Inr have "responseItems (api log ?r) = []"
            by (simp add: responseItems_def)
          ultimately show ?thesis by (intro stop)
        next
          case False
          with Some Inr \<open>i < nc\<close> "1.prems"
          have rec: "searchLoop api kw N nc (i + 1) (acc @ items) (log @ [?r]) = (Inr res, log')"
            by (simp add: searchLoop.simps [of api kw N nc i] Let_def)
          from "1.IH" [OF \<open>i < nc\<close> refl Inr Some _ rec] False
          obtain reqs where r:
            "log' = (log @ [?r]) @ reqs"
            "res = (acc @ items) @ concat (pagesOf api (log @ [?r]) reqs)"
            "reqs = pagedRequests kw N (i + 1) (int (length (acc @ items)))
                      (pagesOf api (log @ [?r]) reqs)"
            "int (length reqs) \<le> max 0 (nc - (i + 1))"
            "list_all (\<lambda>p. p \<noteq> []) (butlast (pagesOf api (log @ [?r]) reqs))"
            "int (length reqs) < nc - (i + 1) \<longrightarrow>
               reqs \<noteq> [] \<and> last (pagesOf api (log @ [?r]) reqs) = []"
            by auto
          have page: "responseItems (api log ?r) = items"
            using Inr Some by (simp add: responseItems_def)
          have pages: "pagesOf api log (?r # reqs) = items # pagesOf api (log @ [?r]) reqs"
            by (simp add: page)
          have nonempty: "pagesOf api (log @ [?r]) reqs \<noteq> []" if "reqs \<noteq> []"
            using that length_pagesOf [of api "log @ [?r]" reqs] by auto
          have empty: "pagesOf api (log @ [?r]) reqs = []" if "reqs = []"
            using that by simp
          show ?thesis
          proof (intro exI [of _ "?r # reqs"] conjI)
            show "log' = log @ ?r # reqs" using r(1) by simp
            show "res = acc @ concat (pagesOf api log (?r # reqs))"
              unfolding pages using r(2) by simp
            show "?r # reqs = pagedRequests kw N i (int (length acc)) (pagesOf api log (?r # reqs))"
              unfolding pages using r(3) by simp
            show "int (length (?r # reqs)) \<le> max 0 (nc - i)"
              using r(4) \<open>i < nc\<close> by simp
            show "list_all (\<lambda>p. p \<noteq> []) (butlast (pagesOf api log (?r # reqs)))"
              unfolding pages using r(5) False by simp
            show "int (length (?r # reqs)) < nc - i \<longrightarrow>
                    ?r # reqs \<noteq> [] \<and> last (pagesOf api log (?r # reqs)) = []"
            proof
              assume "int (length (?r # reqs)) < nc - i"
              then have "int (length reqs) < nc - (i + 1)" by simp
              with r(6) have "reqs \<noteq> []" "last (pagesOf api (log @ [?r]) reqs) = []" by simp_all
              with nonempty show "?r # reqs \<noteq> [] \<and> last (pagesOf api log (?r # reqs)) = []"
                unfolding pages by simp
            qed
          qed
        qed
      qed
    qed
  qed
qed

lemma searchLoop_bound:
  assumes "honoursNum api"
    and "searchLoop api kw N nc i acc log = (Inr res, log')"
    and "int (length acc) \<le> max 0 N"
  shows "int (length res) \<le> max 0 N"
  using assms
proof (induction api kw N nc i acc log arbitrary: res log' rule: searchLoop.induct)
  case (1 api kw N nc i acc log)
  let ?r = "\<lparr> q = kw, start = i * 10 + 1, num = min 10 (N - int (length acc)) \<rparr>"
  show ?case
  proof (cases "i < nc \<and> (\<exists>items. api log ?r = Inr (Some items) \<and> items \<noteq> [])")
    case False
    with "1.prems"(2) have "res = acc"
      by (auto simp: searchLoop.simps [of api kw N nc i] Let_def split: sum.splits option.splits if_splits)
    with "1.prems"(3) show ?thesis by simp
  next
    case True
    then obtain items where it: "i < nc" "api log ?r = Inr (Some items)" "items \<noteq> []" by blast
    with "1.prems"(2)
    have rec: "searchLoop api kw N nc (i + 1) (acc @ items) (log @ [?r]) = (Inr res, log')"
      by (simp add: searchLoop.simps [of api kw N nc i] Let_def)
    have "length items \<le> nat (num ?r)"
      using "1.prems"(1) [unfolded honoursNum_def, rule_format, OF it(2)] .
    with it(3) have "int (length (acc @ items)) \<le> max 0 N" by (cases items) auto
    from "1.IH" [OF it(1) refl it(2) refl _ "1.prems"(1) rec this] it(3) show ?thesis by simp
  qed
qed


lemma honoursNum_shortFirstPage: "honoursNum shortFirstPage"
  by (auto simp: honoursNum_def shortFirstPage_def split: if_splits)

text \<open>
  Claim C2, as amended. When searchGoogle returns for an integer numResults \<open>N\<close>, it has
  made at most \<open>ceil(N/10)\<close> page calls; call \<open>i\<close> (from 0) starts at index \<open>10 i + 1\<close> and
  requests \<open>min 10 (N - results collected so far)\<close>; every page but the last has at least
  one item, and fewer than \<open>ceil(N/10)\<close> calls are made only when the last call returned no
  item; the results are the items of the pages in call order, and at most \<open>N\<close> of them
  (none for a negative \<open>N\<close>) when no page carries more items than its call requested.
\<close>

theorem searchGoogle_paging:
  assumes "searchGoogle api log keywords numResults = (Inr results, log')"
  shows "\<exists>requests. log' = log @ requests
     \<and> results = map formatResult (concat (pagesOf api log requests))
     \<and> requests = pagedRequests keywords numResults 0 0 (pagesOf api log requests)
     \<and> length requests \<le> nat (ceilDiv10 numResults)
     \<and> list_all (\<lambda>p. p \<noteq> []) (butlast (pagesOf api log requests))
     \<and> (length requests < nat (ceilDiv10 numResults)
          \<longrightarrow> requests \<noteq> [] \<and> last (pagesOf api log requests) = [])
     \<and> (honoursNum api \<longrightarrow> length results \<le> nat numResults)"
proof -
  from assms obtain allResults where
    loop: "searchLoop api keywords numResults (ceilDiv10 numResults) 0 [] log = (Inr allResults, log')"
    and res: "results = map formatResult allResults"
    by (auto simp: searchGoogle_def split: prod.splits sum.splits)
  from searchLoop_trace [OF loop] obtain requests where t:
    "log' = log @ requests"
    "allResults = [] @ concat (pagesOf api log requests)"
    "requests = pagedRequests keywords numResults 0 (int (length ([] :: cseItem list)))
                  (pagesOf api log requests)"
    "int (length requests) \<le> max 0 (ceilDiv10 numResults - 0)"
    "list_all (\<lambda>p. p \<noteq> []) (butlast (pagesOf api log requests))"
    "int (length requests) < ceilDiv10 numResults - 0 \<longrightarrow>
       requests \<noteq> [] \<and> last (pagesOf api log requests) = []"
    by blast
  have bound: "length results \<le> nat numResults" if "honoursNum api"
  proof -
    from searchLoop_bound [OF that loop] have "int (length allResults) \<le> max 0 numResults"
      by simp
    then show ?thesis by (simp add: res)
  qed
  have count: "length requests \<le> nat (ceilDiv10 numResults)" using t(4) by simp
  have early: "length requests < nat (ceilDiv10 numResults)
                 \<longrightarrow> requests \<noteq> [] \<and> last (pagesOf api log requests) = []"
    using t(6) by simp
  have order: "results = map formatResult (concat (pagesOf api log requests))"
    using t(2) res by simp
  have reqs: "requests = pagedRequests keywords numResults 0 0 (pagesOf api log requests)"
    using t(3) by simp
  from t(1) order reqs count t(5) early bound show ?thesis by blast
qed

text \<open>
  Twenty results asked of an API whose first page carries five items: two calls, each
  requesting ten, and fifteen results.
\<close>

theorem searchGoogle_paging_witness:
  "searchGoogle shortFirstPage [] ''kw'' 20 =
     (Inr (map formatResult (map itemAt [1..<16])),
      [\<lparr> q = ''kw'', start = 1, num = 10 \<rparr>, \<lparr> q = ''kw'', start = 11, num = 10 \<rparr>])
   \<and> (\<exists>requests.
         [\<lparr> q = ''kw'', start = 1, num = 10 \<rparr>, \<lparr> q = ''kw'', start = 11, num = 10 \<rparr>]
           = [] @ requests
       \<and> map formatResult (map itemAt [1..<16])
           = map formatResult (concat (pagesOf shortFirstPage [] requests))
       \<and> requests = pagedRequests ''kw'' 20 0 0 (pagesOf shortFirstPage [] requests)
       \<and> length requests \<le> nat (ceilDiv10 20)
       \<and> list_all (\<lambda>p. p \<noteq> []) (butlast (pagesOf shortFirstPage [] requests))
       \<and> (length requests < nat (ceilDiv10 20)
            \<longrightarrow> requests \<noteq> [] \<and> last (pagesOf shortFirstPage [] requests) = [])
       \<and> (honoursNum shortFirstPage
            \<longrightarrow> length (map formatResult (map itemAt [1..<16])) \<le> nat 20))"
proof -
  have run: "searchGoogle shortFirstPage [] ''kw'' 20 =
     (Inr (map formatResult (map itemAt [1..<16])),
      [\<lparr> q = ''kw'', start = 1, num = 10 \<rparr>, \<lparr> q = ''kw'', start = 11, num = 10 \<rparr>])"
    by code_simp
  from run searchGoogle_paging [OF run] show ?thesis by blast
qed

text \<open>
  The claim as stated fails: the first page below carries five items where ten were
  requested, and the client does not stop early; it makes the second call, which is all of
  \<open>ceil(20/10)\<close> calls.
\<close>

theorem searchGoogle_short_page_counterexample:
  "length (responseItems (shortFirstPage [] \<lparr> q = ''kw'', start = 1, num = 10 \<rparr>)) = 5
   \<and> snd (searchGoogle shortFirstPage [] ''kw'' 20) =
       [\<lparr> q = ''kw'', start = 1, num = 10 \<rparr>, \<lparr> q = ''kw'', start = 11, num = 10 \<rparr>]
   \<and> length (snd (searchGoogle shortFirstPage [] ''kw'' 20)) = nat (ceilDiv10 20)"
  by code_simp

section \<open>Properties of the SERP analysis\<close>


lemma analyzeLoop_positions:
  "analyzeLoop api hostnameOf maxB pages analysed log = (Inr res, log') \<Longrightarrow>
   map ba_position res = map ba_position analysed @ map serp_position pages
   \<and> map ba_url res = map ba_url analysed @ map serp_url pages"
proof (induction pages arbitrary: analysed log)
  case Nil
  then show ?case by simp
next
  case (Cons page pages)
  from Cons.prems obtain backlinks log1 where
    found: "findBacklinksForUrl api log (serp_url page) maxB = (Inr backlinks, log1)"
    by (auto split: prod.splits sum.splits)
  let ?entry = "\<lparr> ba_position = serp_position page, ba_url = serp_url page,
                    ba_title = serp_title page, backlinksCount = length backlinks,
                    uniqueDomainsCount = length (getUniqueReferringDomains hostnameOf backlinks),
                    ba_backlinks = backlinks,
                    uniqueDomains = getUniqueReferringDomains hostnameOf backlinks \<rparr>"
  from Cons.prems found
  have "analyzeLoop api hostnameOf maxB pages (analysed @ [?entry]) log1 = (Inr res, log')"
    by (simp add: Let_def)
  from Cons.IH [OF this] show ?case by simp
qed

lemma analyzeSERP_entries:
  assumes "analyzeSERP api log kw n = (Inr pages, log')"
  obtains searchResults where "searchGoogle api log kw n = (Inr searchResults, log')"
    and "map serp_position pages = map (\<lambda>k. int k + 1) [0..<length searchResults]"
    and "map serp_url pages = map link searchResults"
proof -
  from assms obtain searchResults where
    s: "searchGoogle api log kw n = (Inr searchResults, log')"
    and p: "pages = map (\<lambda>(index, result).
                       \<lparr> serp_position = int index + 1, serp_url = link result,
                         serp_title = title result, serp_displayUrl = displayLink result,
                         serp_snippet = snippet result \<rparr>) (enumerate 0 searchResults)"
    by (auto simp: analyzeSERP_def split: prod.splits sum.splits)
  have "map serp_position pages = map ((\<lambda>k. int k + 1) \<circ> fst) (enumerate 0 searchResults)"
    by (simp add: p case_prod_unfold comp_def)
  also have "\<dots> = map (\<lambda>k. int k + 1) (map fst (enumerate 0 searchResults))"
    by (simp only: map_map)
  finally have pos: "map serp_position pages = map (\<lambda>k. int k + 1) [0..<length searchResults]"
    by simp
  have "map serp_url pages = map (link \<circ> snd) (enumerate 0 searchResults)"
    by (simp add: p case_prod_unfold comp_def)
  also have "\<dots> = map link (map snd (enumerate 0 searchResults))"
    by (simp only: map_map)
  finally have "map serp_url pages = map link searchResults" by simp
  with s pos show ?thesis by (rule that)
qed

text \<open>
  The positions and urls of the analysis are those of the ranked pages, whatever the number
  of results.
\<close>

lemma analyzeTopRankingBacklinks_positions:
  assumes "analyzeTopRankingBacklinks api hostnameOf log kw n maxB = (Inr analysis, log')"
  obtains searchResults log1 where "searchGoogle api log kw n = (Inr searchResults, log1)"
    and "map ba_position (ca_backlinksAnalysis analysis) =
           map (\<lambda>k. int k + 1) [0..<length searchResults]"
    and "map ba_url (ca_backlinksAnalysis analysis) = map link searchResults"
    and "map serp_position (ca_topPages analysis) =
           map (\<lambda>k. int k + 1) [0..<length searchResults]"
    and "map serp_url (ca_topPages analysis) = map link searchResults"
proof -
  from assms obtain pages log1 analysed where
    serp: "analyzeSERP api log kw n = (Inr pages, log1)"
    and loop: "analyzeLoop api hostnameOf maxB pages [] log1 = (Inr analysed, log')"
    and a: "analysis = \<lparr> ca_keyword = kw, ca_topPages = pages, ca_backlinksAnalysis = analysed \<rparr>"
    by (auto simp: analyzeTopRankingBacklinks_def split: prod.splits sum.splits)
  from analyzeLoop_positions [OF loop]
  have same: "map ba_position analysed = map serp_position pages"
    "map ba_url analysed = map serp_url pages" by simp_all
  from serp obtain searchResults where
    "searchGoogle api log kw n = (Inr searchResults, log1)"
    "map serp_position pages = map (\<lambda>k. int k + 1) [0..<length searchResults]"
    "map serp_url pages = map link searchResults"
    by (rule analyzeSERP_entries)
  with same a show ?thesis by (intro that [of searchResults log1]) simp_all
qed

lemma searchLoop_succeeds:
  assumes "neverFails api"
  shows "\<exists>res log'. searchLoop api kw N nc i acc log = (Inr res, log')"
  using assms
proof (induction api kw N nc i acc log rule: searchLoop.induct)
  case (1 api kw N nc i acc log)
  let ?r = "\<lparr> q = kw, start = i * 10 + 1, num = min 10 (N - int (length acc)) \<rparr>"
  from "1.prems" obtain answer where answer: "api log ?r = Inr answer"
    unfolding neverFails_def by blast
  show ?case
  proof (cases "i < nc \<and> (\<exists>items. answer = Some items \<and> items \<noteq> [])")
    case False
    with answer show ?thesis
      by (auto simp: searchLoop.simps [of api kw N nc i] Let_def split: option.splits)
  next
    case True
    then obtain items where it: "i < nc" "answer = Some items" "items \<noteq> []" by blast
    from "1.IH" [OF it(1) refl answer it(2) _ "1.prems"] it(3)
    obtain res log' where
      "searchLoop api kw N nc (i + 1) (acc @ items) (log @ [?r]) = (Inr res, log')"
      by auto
    with it answer show ?thesis
      by (simp add: searchLoop.simps [of api kw N nc i] Let_def)
  qed
qed

lemma findBacklinksForUrl_succeeds:
  assumes "neverFails api"
  shows "\<exists>backlinks log'. findBacklinksForUrl api log u n = (Inr backlinks, log')"
proof -
  from searchLoop_succeeds [OF assms] obtain res log' where
    "searchLoop api (quoted u) n (ceilDiv10 n) 0 [] log = (Inr res, log')" by blast
  then show ?thesis by (simp add: findBacklinksForUrl_def searchGoogle_def)
qed

lemma analyzeLoop_succeeds:
  assumes "neverFails api"
  shows "\<exists>res log'. analyzeLoop api hostnameOf maxB pages analysed log = (Inr res, log')"
proof (induction pages arbitrary: analysed log)
  case Nil
  show ?case by simp
next
  case (Cons page pages)
  from findBacklinksForUrl_succeeds [OF assms] obtain backlinks log1 where
    "findBacklinksForUrl api log (serp_url page) maxB = (Inr backlinks, log1)" by blast
  with Cons.IH show ?case by (simp add: Let_def)
qed

text \<open>
  Claim C5. Let the search for keyword \<open>K\<close> with numResults 3 give the three results \<open>r1\<close>,
  \<open>r2\<close>, \<open>r3\<close> in rank order. Then analyzeTopRankingBacklinks for \<open>K\<close> and numResults 3
  returns an analysis whenever no call of the search API is rejected, and in every
  analysis it returns the positions of backlinksAnalysis are 1, 2, 3 in this order and the
  url of each record is the link of the result at that rank; the same holds of topPages.
\<close>

theorem analyzeTopRankingBacklinks_three_positions:
  assumes "searchGoogle api log K 3 = (Inr [r1, r2, r3], log1)"
  shows "(neverFails api \<longrightarrow>
            (\<exists>analysis log'.
               analyzeTopRankingBacklinks api hostnameOf log K 3 maxB = (Inr analysis, log')))
     \<and> (\<forall>analysis log'.
            analyzeTopRankingBacklinks api hostnameOf log K 3 maxB = (Inr analysis, log') \<longrightarrow>
            map ba_position (ca_backlinksAnalysis analysis) = [1, 2, 3]
            \<and> map ba_url (ca_backlinksAnalysis analysis) = [link r1, link r2, link r3]
            \<and> map serp_position (ca_topPages analysis) = [1, 2, 3]
            \<and> map serp_url (ca_topPages analysis) = [link r1, link r2, link r3])"
proof (intro conjI allI impI)
  assume never: "neverFails api"
  from assms obtain pages where "analyzeSERP api log K 3 = (Inr pages, log1)"
    by (simp add: analyzeSERP_def)
  moreover from analyzeLoop_succeeds [OF never] obtain res log' where
    "analyzeLoop api hostnameOf maxB pages [] log1 = (Inr res, log')" by blast
  ultimately
  show "\<exists>analysis log'.
          analyzeTopRankingBacklinks api hostnameOf log K 3 maxB = (Inr analysis, log')"
    by (simp add: analyzeTopRankingBacklinks_def)
next
  fix analysis log'
  assume run: "analyzeTopRankingBacklinks api hostnameOf log K 3 maxB = (Inr analysis, log')"
  then obtain searchResults log2 where
    s: "searchGoogle api log K 3 = (Inr searchResults, log2)"
    and p: "map ba_position (ca_backlinksAnalysis analysis) =
           map (\<lambda>k. int k + 1) [0..<length searchResults]"
       "map ba_url (ca_backlinksAnalysis analysis) = map link searchResults"
       "map serp_position (ca_topPages analysis) =
           map (\<lambda>k. int k + 1) [0..<length searchResults]"
       "map serp_url (ca_topPages analysis) = map link searchResults"
    by (rule analyzeTopRankingBacklinks_positions)
  from s assms have three: "searchResults = [r1, r2, r3]" by simp
  have ranks: "map (\<lambda>k. int k + 1) [0..<3] = [1, 2, 3]" by (simp add: upt_rec)
  from p three ranks show "map ba_position (ca_backlinksAnalysis analysis) = [1, 2, 3]" by simp
  from p three show "map ba_url (ca_backlinksAnalysis analysis) = [link r1, link r2, link r3]"
    by simp
  from p three ranks show "map serp_position (ca_topPages analysis) = [1, 2, 3]" by simp
  from p three show "map serp_url (ca_topPages analysis) = [link r1, link r2, link r3]" by simp
qed

lemma neverFails_exampleSearch: "neverFails (exampleSearch None)"
  by (simp add: neverFails_def exampleSearch_def)

text \<open>The analysis of the keyword \<open>kw\<close>, which has three results, with no failing query.\<close>

theorem analyzeTopRankingBacklinks_three_positions_witness:
  "searchGoogle (exampleSearch None) [] ''kw'' 3 =
     (Inr (map formatResult (map itemAt [1..<4])), [\<lparr> q = ''kw'', start = 1, num = 3 \<rparr>])
   \<and> (\<exists>analysis log'.
         analyzeTopRankingBacklinks (exampleSearch None) httpHostname [] ''kw'' 3 10
           = (Inr analysis, log')
         \<and> map ba_position (ca_backlinksAnalysis analysis) = [1, 2, 3]
         \<and> map ba_url (ca_backlinksAnalysis analysis)
             = [''https://r.example/i'', ''https://r.example/ii'', ''https://r.example/iii''])"
proof -
  have s: "searchGoogle (exampleSearch None) [] ''kw'' 3 =
     (Inr [formatResult (itemAt 1), formatResult (itemAt 2), formatResult (itemAt 3)],
      [\<lparr> q = ''kw'', start = 1, num = 3 \<rparr>])"
    by code_simp
  have l: "link (formatResult (itemAt 1)) = ''https://r.example/i''"
    "link (formatResult (itemAt 2)) = ''https://r.example/ii''"
    "link (formatResult (itemAt 3)) = ''https://r.example/iii''"
    by code_simp+
  have m: "map formatResult (map itemAt [1..<4]) =
     [formatResult (itemAt 1), formatResult (itemAt 2), formatResult (itemAt 3)]"
    by code_simp
  note c5 = analyzeTopRankingBacklinks_three_positions [OF s, of httpHostname 10]
  from c5 neverFails_exampleSearch obtain analysis log' where
    run: "analyzeTopRankingBacklinks (exampleSearch None) httpHostname [] ''kw'' 3 10
            = (Inr analysis, log')"
    by blast
  with c5 have "map ba_position (ca_backlinksAnalysis analysis) = [1, 2, 3]"
    and "map ba_url (ca_backlinksAnalysis analysis) =
           [link (formatResult (itemAt 1)), link (formatResult (itemAt 2)),
            link (formatResult (itemAt 3))]"
    by blast+
  with run s l m show ?thesis by auto
qed

lemma analyzeLoop_append:
  "analyzeLoop api hostnameOf maxB (xs @ ys) analysed log =
     (case analyzeLoop api hostnameOf maxB xs analysed log of
        (Inl err, log') \<Rightarrow> (Inl err, log')
      | (Inr analysed', log') \<Rightarrow> analyzeLoop api hostnameOf maxB ys analysed' log')"
  by (induction xs arbitrary: analysed log) (auto simp: Let_def split: prod.splits sum.splits)

text \<open>
  Claim C7. When the ranked pages before \<open>page\<close> have been analysed and fetching the
  backlinks of \<open>page\<close> fails with an error, analyzeTopRankingBacklinks fails with that very
  error, whatever pages remain: it returns no analysis, and it makes no call after the
  failed one.
\<close>

theorem analyzeTopRankingBacklinks_aborts_on_failure:
  assumes "analyzeSERP api log kw n = (Inr (earlier @ page # later), log0)"
    and "analyzeLoop api hostnameOf maxB earlier [] log0 = (Inr analysed, log1)"
    and "findBacklinksForUrl api log1 (serp_url page) maxB = (Inl err, log2)"
  shows "analyzeTopRankingBacklinks api hostnameOf log kw n maxB = (Inl err, log2)"
proof -
  have "analyzeLoop api hostnameOf maxB (page # later) analysed log1 = (Inl err, log2)"
    using assms(3) by simp
  with assms(2)
  have "analyzeLoop api hostnameOf maxB (earlier @ page # later) [] log0 = (Inl err, log2)"
    by (simp add: analyzeLoop_append)
  with assms(1) show ?thesis
    by (simp add: analyzeTopRankingBacklinks_def)
qed

text \<open>
  Three ranked pages, the query for the backlinks of the second of which fails: the first
  page is analysed, the error of the second is the outcome, the third is never looked up.
\<close>

theorem analyzeTopRankingBacklinks_aborts_on_failure_witness:
  "analyzeSERP (exampleSearch (Some (quoted ''https://r.example/ii''))) [] ''kw'' 3 =
     (Inr ([rankedPage 1] @ rankedPage 2 # [rankedPage 3]), [\<lparr> q = ''kw'', start = 1, num = 3 \<rparr>])
   \<and> analyzeLoop (exampleSearch (Some (quoted ''https://r.example/ii''))) httpHostname 10
             [rankedPage 1] [] [\<lparr> q = ''kw'', start = 1, num = 3 \<rparr>]
       = (Inr [\<lparr> ba_position = 1, ba_url = ''https://r.example/i'', ba_title = ''result'',
                 backlinksCount = 2, uniqueDomainsCount = 1,
                 ba_backlinks =
                   [\<lparr> sourceUrl = ''https://r.example/iiiiiii'', sourceTitle = ''result'',
                       bl_target = TargetUrl ''https://r.example/i'', bl_snippet = [] \<rparr>,
                    \<lparr> sourceUrl = ''https://r.example/iiiiiiii'', sourceTitle = ''result'',
                       bl_target = TargetUrl ''https://r.example/i'', bl_snippet = [] \<rparr>],
                 uniqueDomains = [''r.example''] \<rparr>],
          [\<lparr> q = ''kw'', start = 1, num = 3 \<rparr>,
           \<lparr> q = quoted ''https://r.example/i'', start = 1, num = 10 \<rparr>])
   \<and> findBacklinksForUrl (exampleSearch (Some (quoted ''https://r.example/ii'')))
         [\<lparr> q = ''kw'', start = 1, num = 3 \<rparr>,
          \<lparr> q = quoted ''https://r.example/i'', start = 1, num = 10 \<rparr>]
         (serp_url (rankedPage 2)) 10
       = (Inl \<lparr> message = ''Quota exceeded'', responseStatus = Some 429 \<rparr>,
          [\<lparr> q = ''kw'', start = 1, num = 3 \<rparr>,
           \<lparr> q = quoted ''https://r.example/i'', start = 1, num = 10 \<rparr>,
           \<lparr> q = quoted ''https://r.example/ii'', start = 1, num = 10 \<rparr>])
   \<and> analyzeTopRankingBacklinks (exampleSearch (Some (quoted ''https://r.example/ii''))) httpHostname
         [] ''kw'' 3 10
       = (Inl \<lparr> message = ''Quota exceeded'', responseStatus = Some 429 \<rparr>,
          [\<lparr> q = ''kw'', start = 1, num = 3 \<rparr>,
           \<lparr> q = quoted ''https://r.example/i'', start = 1, num = 10 \<rparr>,
           \<lparr> q = quoted ''https://r.example/ii'', start = 1, num = 10 \<rparr>])"
proof -
  let ?api = "exampleSearch (Some (quoted ''https://r.example/ii''))"
  let ?log0 = "[\<lparr> q = ''kw'', start = 1, num = 3 \<rparr>]"
  let ?log1 = "[\<lparr> q = ''kw'', start = 1, num = 3 \<rparr>,
                \<lparr> q = quoted ''https://r.example/i'', start = 1, num = 10 \<rparr>]"
  have serp: "analyzeSERP ?api [] ''kw'' 3 =
                (Inr ([rankedPage 1] @ rankedPage 2 # [rankedPage 3]), ?log0)"
    by code_simp
  have first: "analyzeLoop ?api httpHostname 10 [rankedPage 1] [] ?log0
       = (Inr [\<lparr> ba_position = 1, ba_url = ''https://r.example/i'', ba_title = ''result'',
                 backlinksCount = 2, uniqueDomainsCount = 1,
                 ba_backlinks =
                   [\<lparr> sourceUrl = ''https://r.example/iiiiiii'', sourceTitle = ''result'',
                       bl_target = TargetUrl ''https://r.example/i'', bl_snippet = [] \<rparr>,
                    \<lparr> sourceUrl = ''https://r.example/iiiiiiii'', sourceTitle = ''result'',
                       bl_target = TargetUrl ''https://r.example/i'', bl_snippet = [] \<rparr>],
                 uniqueDomains = [''r.example''] \<rparr>], ?log1)"
    by code_simp
  have fail: "findBacklinksForUrl ?api ?log1 (serp_url (rankedPage 2)) 10
       = (Inl \<lparr> message = ''Quota exceeded'', responseStatus = Some 429 \<rparr>,
          [\<lparr> q = ''kw'', start = 1, num = 3 \<rparr>,
           \<lparr> q = quoted ''https://r.example/i'', start = 1, num = 10 \<rparr>,
           \<lparr> q = quoted ''https://r.example/ii'', start = 1, num = 10 \<rparr>])"
    by code_simp
  from analyzeTopRankingBacklinks_aborts_on_failure [OF serp first fail] serp first fail
  show ?thesis by blast
qed

section \<open>Properties of the CSV export\<close>


lemma processValue_cases:
  "processValue env v =
     (case v of JArray xs \<Rightarrow> JString (arrayJoin xs ''||'')
      | JObject props \<Rightarrow> JString (jsonStringify env v)
      | _ \<Rightarrow> v)"
  by (cases v) (simp_all add: processValue_def)

lemma getProperty_distinct:
  "distinct (map fst kvs) \<Longrightarrow> (key, v) \<in> set kvs \<Longrightarrow> getProperty kvs key = v"
  by (simp add: getProperty_def)

lemma processItem_object:
  assumes "distinct (map fst kvs)"
  shows "processItem env (JObject kvs) =
           Some (map (\<lambda>(key, v). (key, processValue env v)) kvs)"
proof -
  have "map (\<lambda>key. (key, processValue env (getProperty kvs key))) (map fst kvs) =
        map (\<lambda>(key, v). (key, processValue env v)) kvs"
    using getProperty_distinct [OF assms] by (auto simp: case_prod_unfold)
  then show ?thesis by (simp add: processItem_def)
qed

lemma processData_items:
  "processData env items = Some rs \<Longrightarrow>
   length rs = length items \<and> (\<forall>i<length items. processItem env (items ! i) = Some (rs ! i))"
proof (induction items arbitrary: rs)
  case Nil
  then show ?case by simp
next
  case (Cons item items)
  from Cons.prems obtain r rest where
    r: "processItem env item = Some r" "processData env items = Some rest" "rs = r # rest"
    by (auto split: option.splits)
  from Cons.IH [OF r(2)] r(1,3) show ?case
    by (auto simp: nth_Cons split: nat.splits)
qed

lemma exportToCsv_written:
  assumes "exportToCsv env data filename = Inr written"
  obtains items where "data = JArray items" and "items \<noteq> []"
    and "processData env items = Some (cw_records written)"
    and "cw_header written = map (\<lambda>id. (id, id)) (map fst (cw_records written ! 0))"
proof -
  from assms obtain items where d: "data = JArray items"
    by (cases data) (simp_all add: exportToCsv_def)
  from assms d have ne: "items \<noteq> []"
    by (auto simp: exportToCsv_def Let_def split: option.splits)
  from assms d ne obtain first rest where
    p: "processData env items = Some (first # rest)"
    and w: "written = \<lparr> cw_path = pathJoin env (csvDir env)
                            (if endsWith filename ''.csv'' then filename else filename @ ''.csv''),
                        cw_header = map (\<lambda>id. (id, id)) (map fst first),
                        cw_records = first # rest \<rparr>"
    by (auto simp: exportToCsv_def Let_def split: option.splits list.splits)
  from d ne p w show ?thesis by (intro that [of items]) simp_all
qed

text \<open>
  Claim C8, as amended. exportToCsv fails when data is not an array and when it is the
  empty array. When it succeeds, data is a non-empty array, one record is written per
  element, the header is the keys of the first written record, and a record element is
  written field by field: an array-valued field as the string of its elements joined
  with \<open>||\<close>, an object-valued field as its JSON text, any other field unchanged. Whether
  the records have the same keys is not checked.
\<close>

theorem exportToCsv_contract:
  "(\<not> isArray data \<longrightarrow>
      exportToCsv env data filename = Inl (JsError ''Data must be an array for CSV export''))
   \<and> (\<exists>err. exportToCsv env (JArray []) filename = Inl err)
   \<and> (\<forall>written. exportToCsv env data filename = Inr written \<longrightarrow>
        (\<exists>items. data = JArray items \<and> items \<noteq> []
           \<and> length (cw_records written) = length items
           \<and> cw_header written = map (\<lambda>id. (id, id)) (map fst (cw_records written ! 0))
           \<and> (\<forall>i kvs. i < length items \<and> items ! i = JObject kvs \<and> distinct (map fst kvs) \<longrightarrow>
                 cw_records written ! i =
                   map (\<lambda>(key, v).
                          (key, case v of JArray xs \<Rightarrow> JString (arrayJoin xs ''||'')
                                | JObject props \<Rightarrow> JString (jsonStringify env v)
                                | _ \<Rightarrow> v))
                     kvs)))"
proof (intro conjI allI impI)
  assume "\<not> isArray data"
  then show "exportToCsv env data filename = Inl (JsError ''Data must be an array for CSV export'')"
    by (cases data) (simp_all add: exportToCsv_def)
next
  show "\<exists>err. exportToCsv env (JArray []) filename = Inl err"
    by (simp add: exportToCsv_def Let_def split: option.splits)
next
  fix written
  assume "exportToCsv env data filename = Inr written"
  then obtain items where d: "data = JArray items" "items \<noteq> []"
    and p: "processData env items = Some (cw_records written)"
    and h: "cw_header written = map (\<lambda>id. (id, id)) (map fst (cw_records written ! 0))"
    by (rule exportToCsv_written)
  from processData_items [OF p]
  have len: "length (cw_records written) = length items"
    and each: "\<forall>i<length items. processItem env (items ! i) = Some (cw_records written ! i)"
    by simp_all
  have fields: "cw_records written ! i =
          map (\<lambda>(key, v).
                 (key, case v of JArray xs \<Rightarrow> JString (arrayJoin xs ''||'')
                       | JObject props \<Rightarrow> JString (jsonStringify env v)
                       | _ \<Rightarrow> v)) kvs"
    if "i < length items \<and> items ! i = JObject kvs \<and> distinct (map fst kvs)" for i kvs
  proof -
    from that each have "processItem env (JObject kvs) = Some (cw_records written ! i)"
      by auto
    with that have "cw_records written ! i = map (\<lambda>(key, v). (key, processValue env v)) kvs"
      by (simp add: processItem_object)
    then show ?thesis by (simp add: processValue_cases)
  qed
  from d len h fields
  show "\<exists>items. data = JArray items \<and> items \<noteq> []
           \<and> length (cw_records written) = length items
           \<and> cw_header written = map (\<lambda>id. (id, id)) (map fst (cw_records written ! 0))
           \<and> (\<forall>i kvs. i < length items \<and> items ! i = JObject kvs \<and> distinct (map fst kvs) \<longrightarrow>
                 cw_records written ! i =
                   map (\<lambda>(key, v).
                          (key, case v of JArray xs \<Rightarrow> JString (arrayJoin xs ''||'')
                                | JObject props \<Rightarrow> JString (jsonStringify env v)
                                | _ \<Rightarrow> v))
                     kvs)"
    by blast
qed

text \<open>
  A string is refused, the empty array is refused, and a metadata row with an array of
  headings is written with the headings joined.
\<close>

theorem exportToCsv_contract_witness:
  "exportToCsv workingEnv (JString ''rows'') ''out''
       = Inl (JsError ''Data must be an array for CSV export'')
   \<and> exportToCsv workingEnv (JArray []) ''out''
       = Inl (JsError ''Cannot export empty data to CSV'')
   \<and> exportToCsv workingEnv (JArray [metadataRow]) ''out''
       = Inr \<lparr> cw_path = ''output/csv/out.csv'',
               cw_header = [(''url'', ''url''), (''h1Tags'', ''h1Tags''), (''og'', ''og''),
                            (''words'', ''words'')],
               cw_records = [[(''url'', JString ''https://a.example/''),
                              (''h1Tags'', JString ''Intro||More''),
                              (''og'', JString ''{...}''), (''words'', JNumber 120)]] \<rparr>"
proof -
  have a: "\<not> isArray (JString ''rows'')" by simp
  have b: "exportToCsv workingEnv (JArray []) ''out''
       = Inl (JsError ''Cannot export empty data to CSV'')"
    by code_simp
  have c: "exportToCsv workingEnv (JArray [metadataRow]) ''out''
       = Inr \<lparr> cw_path = ''output/csv/out.csv'',
               cw_header = [(''url'', ''url''), (''h1Tags'', ''h1Tags''), (''og'', ''og''),
                            (''words'', ''words'')],
               cw_records = [[(''url'', JString ''https://a.example/''),
                              (''h1Tags'', JString ''Intro||More''),
                              (''og'', JString ''{...}''), (''words'', JNumber 120)]] \<rparr>"
    by code_simp
  from exportToCsv_contract [of "JString ''rows''" workingEnv "''out''"] a
  have "exportToCsv workingEnv (JString ''rows'') ''out''
       = Inl (JsError ''Data must be an array for CSV export'')"
    by blast
  with b c show ?thesis by blast
qed

text \<open>
  The claim as stated fails: two records with different keys are not a homogeneous record
  sequence, and the export does not fail on them; it writes both under the header of the
  first.
\<close>

theorem exportToCsv_mixed_rows_counterexample:
  "exportToCsv workingEnv
     (JArray [JObject [(''a'', JNumber 1)], JObject [(''b'', JString ''x'')]]) ''out.csv''
     = Inr \<lparr> cw_path = ''output/csv/out.csv'', cw_header = [(''a'', ''a'')],
             cw_records = [[(''a'', JNumber 1)], [(''b'', JString ''x'')]] \<rparr>"
  by code_simp

section \<open>Properties of the URL categorizer\<close>


lemma categorizeUrl_category:
  "category (categorizeUrl URLParser u) \<in> {''social_media'', ''content_platform'', ''other'', ''error''}"
  by (simp add: categorizeUrl_def Let_def split: sum.splits)

lemma category_enhance:
  "category (enhance URLParser result) = category (categorizeUrl URLParser (kr_link result))"
  by (simp add: enhance_def categorization.extend_def)

lemma categorizeEach_filter:
  "categorizeEach URLParser results cs =
     Inr \<lparr> social_media = social_media cs
              @ filter (\<lambda>r. category r = ''social_media'') (map (enhance URLParser) results),
           content_platform = content_platform cs
              @ filter (\<lambda>r. category r = ''content_platform'') (map (enhance URLParser) results),
           other = other cs
              @ filter (\<lambda>r. category r = ''other'') (map (enhance URLParser) results),
           error = error cs
              @ filter (\<lambda>r. category r = ''error'') (map (enhance URLParser) results) \<rparr>"
proof (induction results arbitrary: cs)
  case Nil
  then show ?case by simp
next
  case (Cons result results)
  let ?c = "category (categorizeUrl URLParser (kr_link result))"
  have "?c \<in> {''social_media'', ''content_platform'', ''other'', ''error''}"
    by (rule categorizeUrl_category)
  then consider "?c = ''social_media''" | "?c = ''content_platform''" | "?c = ''other''"
    | "?c = ''error''" by auto
  then show ?case
    by cases (simp_all add: pushCategory_def Cons.IH category_enhance)
qed

lemma four_way_split:
  assumes "\<forall>x\<in>set xs. f x \<in> {a, b, c, d}" and "distinct [a, b, c, d]"
  shows "length (filter (\<lambda>x. f x = a) xs) + length (filter (\<lambda>x. f x = b) xs)
       + length (filter (\<lambda>x. f x = c) xs) + length (filter (\<lambda>x. f x = d) xs) = length xs"
  using assms by (induction xs) auto


text \<open>
  Claim C9. categorizeUrl returns one of the four categories social_media,
  content_platform, other, error, also when the URL does not parse. categorizeSearchResults
  returns (it never throws); each of its four lists holds, in input order, exactly the
  results of that category, so every result is in exactly one list, and the lengths of the
  four lists add up to the length of the input.
\<close>

theorem categorizeSearchResults_partition:
  "category (categorizeUrl URLParser u)
     \<in> {''social_media'', ''content_platform'', ''other'', ''error''}
   \<and> (\<exists>cs. categorizeSearchResults URLParser searchResults = Inr cs
         \<and> social_media cs =
             filter (\<lambda>r. category r = ''social_media'') (map (enhance URLParser) searchResults)
         \<and> content_platform cs =
             filter (\<lambda>r. category r = ''content_platform'') (map (enhance URLParser) searchResults)
         \<and> other cs =
             filter (\<lambda>r. category r = ''other'') (map (enhance URLParser) searchResults)
         \<and> error cs =
             filter (\<lambda>r. category r = ''error'') (map (enhance URLParser) searchResults)
         \<and> length (social_media cs) + length (content_platform cs) + length (other cs)
             + length (error cs) = length searchResults)"
proof -
  let ?all = "map (enhance URLParser) searchResults"
  let ?cs = "\<lparr> social_media = filter (\<lambda>r. category r = ''social_media'') ?all,
               content_platform = filter (\<lambda>r. category r = ''content_platform'') ?all,
               other = filter (\<lambda>r. category r = ''other'') ?all,
               error = filter (\<lambda>r. category r = ''error'') ?all \<rparr>"
  have run: "categorizeSearchResults URLParser searchResults = Inr ?cs"
    by (simp add: categorizeSearchResults_def categorizeEach_filter)
  have "\<forall>r\<in>set ?all. category r \<in> {''social_media'', ''content_platform'', ''other'', ''error''}"
    using categorizeUrl_category by (auto simp: category_enhance)
  then have "length (filter (\<lambda>r. category r = ''social_media'') ?all)
       + length (filter (\<lambda>r. category r = ''content_platform'') ?all)
       + length (filter (\<lambda>r. category r = ''other'') ?all)
       + length (filter (\<lambda>r. category r = ''error'') ?all) = length ?all"
    by (rule four_way_split) simp
  then have total: "length (social_media ?cs) + length (content_platform ?cs)
       + length (other ?cs) + length (error ?cs) = length searchResults"
    by simp
  have parts: "social_media ?cs = filter (\<lambda>r. category r = ''social_media'') ?all"
    "content_platform ?cs = filter (\<lambda>r. category r = ''content_platform'') ?all"
    "other ?cs = filter (\<lambda>r. category r = ''other'') ?all"
    "error ?cs = filter (\<lambda>r. category r = ''error'') ?all"
    by simp_all
  from run parts total categorizeUrl_category [of URLParser u] show ?thesis by blast
qed


text \<open>
  Five results: two on social media hosts (medium.com is in both tables and counts as
  social media), one on a content platform, one elsewhere, one with an empty link.
\<close>

theorem categorizeSearchResults_partition_witness:
  "\<exists>cs. categorizeSearchResults hostParser
           (map resultAt [''https://www.medium.com/x'', ''https://blog.wix.com/'', '''',
                          ''https://a.example/'', ''https://m.facebook.com/p'']) = Inr cs
      \<and> map cz_url (social_media cs) = [''https://www.medium.com/x'', ''https://m.facebook.com/p'']
      \<and> map cz_url (content_platform cs) = [''https://blog.wix.com/'']
      \<and> map cz_url (other cs) = [''https://a.example/'']
      \<and> map cz_url (error cs) = ['''']
      \<and> length (social_media cs) + length (content_platform cs) + length (other cs)
          + length (error cs) = 5"
proof -
  let ?rs = "map resultAt [''https://www.medium.com/x'', ''https://blog.wix.com/'', '''',
                          ''https://a.example/'', ''https://m.facebook.com/p'']"
  let ?run = "categorizeSearchResults hostParser ?rs"
  from categorizeSearchResults_partition [of hostParser "''''" ?rs]
  obtain cs where run: "?run = Inr cs"
    and total: "length (social_media cs) + length (content_platform cs) + length (other cs)
          + length (error cs) = length ?rs"
    by blast
  have "map cz_url (social_media (projr ?run)) =
          [''https://www.medium.com/x'', ''https://m.facebook.com/p'']"
    and "map cz_url (content_platform (projr ?run)) = [''https://blog.wix.com/'']"
    and "map cz_url (other (projr ?run)) = [''https://a.example/'']"
    and "map cz_url (error (projr ?run)) = ['''']"
    by code_simp+
  with run total show ?thesis by simp
qed

section \<open>Properties of the submission analyzer\<close>


lemma checkPattern_confidence:
  "confidence result \<le> confidence (checkPattern baseUrl hrefValue linkText result pattern)"
  by (simp add: checkPattern_def Let_def)

lemma checkKeyword_confidence:
  "0 \<le> gain \<Longrightarrow> confidence result \<le> confidence (checkKeyword gain content result kw)"
  by (simp add: checkKeyword_def)

lemma foldl_confidence:
  assumes "\<And>r x. confidence r \<le> confidence (f r x)"
  shows "confidence result \<le> confidence (foldl f result xs)"
proof (induction xs arbitrary: result)
  case Nil
  show ?case by simp
next
  case (Cons x xs)
  have "confidence result \<le> confidence (f result x)" by (rule assms)
  also have "\<dots> \<le> confidence (foldl f (f result x) xs)" by (rule Cons.IH)
  finally show ?case by simp
qed

lemma checkAnchor_confidence:
  "confidence result \<le> confidence (checkAnchor baseUrl result el)"
proof (cases "attr el ''href''")
  case None
  then show ?thesis by (simp add: checkAnchor_def)
next
  case (Some hrefValue)
  let ?text = "trim (toLowerCase (anchorContent el))"
  let ?mid = "foldl (checkPattern baseUrl hrefValue ?text) result SUBMISSION_URL_PATTERNS"
  have "confidence result \<le> confidence ?mid"
    by (rule foldl_confidence) (rule checkPattern_confidence)
  also have "\<dots> \<le> confidence (foldl (checkKeyword 15 ?text) ?mid SUBMISSION_KEYWORDS)"
    by (rule foldl_confidence) (rule checkKeyword_confidence, simp)
  finally show ?thesis using Some by (simp add: checkAnchor_def Let_def)
qed

lemma analyzeHomepage_confidence:
  "0 \<le> confidence (analyzeHomepage u parsed page)
   \<and> confidence (analyzeHomepage u parsed page) \<le> 100
   \<and> acceptsSubmissions (analyzeHomepage u parsed page)
       = (confidence (analyzeHomepage u parsed page) \<ge> 30)"
proof -
  let ?base = "pu_protocol parsed @ ''//'' @ pu_hostname parsed"
  let ?r0 = "\<lparr> sa_url = u, sa_domain = pu_hostname parsed, acceptsSubmissions = False,
                confidence = 0, submissionPageUrls = [], submissionKeywordsFound = [],
                sa_notes = [] \<rparr>"
  let ?r1 = "foldl (checkAnchor ?base) ?r0 (hp_anchors page)"
  let ?r2 = "foldl (checkKeyword 10 (toLowerCase (hp_bodyText page))) ?r1 SUBMISSION_KEYWORDS"
  have "confidence ?r0 \<le> confidence ?r1"
    by (rule foldl_confidence) (rule checkAnchor_confidence)
  also have "\<dots> \<le> confidence ?r2"
    by (rule foldl_confidence) (rule checkKeyword_confidence, simp)
  finally have "0 \<le> confidence ?r2" by simp
  then show ?thesis
    by (simp add: analyzeHomepage_def Let_def)
qed

text \<open>
  Claim C10. Every record analyzeSiteForSubmission returns, the one of its \<^verbatim>\<open>catch\<close>
  block included, has a confidence between 0 and 100, and accepts submissions exactly
  when the confidence is at least 30.
\<close>

theorem analyzeSiteForSubmission_confidence:
  assumes "analyzeSiteForSubmission URLParser fetch u = Inr r"
  shows "0 \<le> confidence r \<and> confidence r \<le> 100
     \<and> acceptsSubmissions r = (confidence r \<ge> 30)"
proof (cases "URLParser u")
  case (Inl msg)
  with assms show ?thesis by (simp add: analyzeSiteForSubmission_def)
next
  case (Inr parsed)
  show ?thesis
  proof (cases "fetch u")
    case (Inl err)
    with Inr assms show ?thesis by (auto simp: analyzeSiteForSubmission_def)
  next
    case page: (Inr page)
    with Inr assms have "r = analyzeHomepage u parsed page"
      by (simp add: analyzeSiteForSubmission_def)
    with analyzeHomepage_confidence [of u parsed page] show ?thesis by simp
  qed
qed

text \<open>
  A homepage whose signals add up to more than 100 is capped at 100 and accepted; a
  homepage that does not load gives confidence 0 and is not accepted.
\<close>

theorem analyzeSiteForSubmission_confidence_witness:
  "confidence (projr (analyzeSiteForSubmission hostParser homepages ''https://eager.example/'')) = 100
   \<and> acceptsSubmissions
        (projr (analyzeSiteForSubmission hostParser homepages ''https://eager.example/'')) = True
   \<and> confidence (projr (analyzeSiteForSubmission hostParser homepages ''https://down.example/'')) = 0
   \<and> acceptsSubmissions
        (projr (analyzeSiteForSubmission hostParser homepages ''https://down.example/'')) = False"
proof -
  let ?eager = "analyzeSiteForSubmission hostParser homepages ''https://eager.example/''"
  let ?down = "analyzeSiteForSubmission hostParser homepages ''https://down.example/''"
  have e: "?eager = Inr (projr ?eager)" and d: "?down = Inr (projr ?down)"
    by code_simp+
  have ce: "confidence (projr ?eager) = 100" and cd: "confidence (projr ?down) = 0"
    by code_simp+
  from analyzeSiteForSubmission_confidence [OF e] analyzeSiteForSubmission_confidence [OF d] ce cd
  show ?thesis by simp
qed

end
